theory Spec2Isabelle
  imports Main "HOL-Library.Char_ord" "HOL-Library.List_Lexorder" "HOL-Library.Option_ord"
    "HOL-Library.Word"
begin

section \<open>Data model of the key-value store\<close>

text \<open>
  The thrift struct \<open>Value\<close> (KvStore.thrift): \<open>version\<close>, \<open>ttl\<close> and
  \<open>ttlVersion\<close> are \<open>i64\<close> fields, read here as the integers they denote (the code
  modelled below only compares them, or subtracts two durations); \<open>val\<close> is the optional
  binary field \<open>value\<close> and \<open>hash\<close> the optional \<open>i64\<close> hash. Strings are byte
  strings, ordered as \<open>std::string\<close> orders them (lexicographically, by byte value).
\<close>

record Value =
  version :: int
  originatorId :: string
  val :: "string option"
  ttl :: int
  ttlVersion :: int
  hash :: "int option"

text \<open>
  The store \<open>kvStore_\<close> is an \<open>unordered_map\<close> that the code only looks up and
  updates by key: a map. The key-value maps inside messages are also iterated; they are
  given by their entries, in the order the iteration visits them, and \<open>map_of\<close> looks
  a key up.
\<close>

type_synonym KeyVals = "string \<rightharpoonup> Value"

type_synonym KeyValList = "(string \<times> Value) list"

text \<open>
  Failures of the C++ code that the model keeps as values: dereferencing the end iterator
  of an \<open>unordered_map\<close>, reading an unset optional field, calling through a null
  client pointer, incrementing the largest \<open>int64_t\<close>, a failed \<open>CHECK\<close> (which
  aborts the process), and the exception \<open>thrift::KvStoreError\<close>.
\<close>

datatype error =
    EndIteratorDeref
  | UnsetOptionalDeref
  | NullPointerDeref
  | SignedOverflow
  | CheckFailed
  | KvStoreError string

definition int64_max :: int where
  "int64_max = 9223372036854775807"

section \<open>Peer state machine\<close>

datatype KvStorePeerState = IDLE | SYNCING | INITIALIZED

text \<open>
  The declaration of \<open>enum class KvStorePeerEvent\<close> lives in KvStore.h; the columns of
  the transition matrix in \<open>getNextState\<close> and the comments beside its rows fix the
  numbering used here: column 0 is PEER_ADD, column 2 is SYNC_RESP_RCVD, column 3 is
  THRIFT_API_ERROR, and column 1 (PEER_DEL) has no defined transition in any row.
\<close>

datatype KvStorePeerEvent = PEER_ADD | PEER_DEL | SYNC_RESP_RCVD | THRIFT_API_ERROR

fun state_index :: "KvStorePeerState \<Rightarrow> nat" where
  "state_index IDLE = 0"
| "state_index SYNCING = 1"
| "state_index INITIALIZED = 2"

fun event_index :: "KvStorePeerEvent \<Rightarrow> nat" where
  "event_index PEER_ADD = 0"
| "event_index PEER_DEL = 1"
| "event_index SYNC_RESP_RCVD = 2"
| "event_index THRIFT_API_ERROR = 3"

definition stateMap :: "KvStorePeerState option list list" where
  "stateMap =
    [ [Some SYNCING, None, None, Some IDLE],
      [None, None, Some INITIALIZED, Some IDLE],
      [None, None, Some INITIALIZED, Some IDLE] ]"

text \<open>
  \<open>KvStoreDb::getNextState\<close>: both \<open>CHECK\<close>s are fatal; the two index reads are
  inside the matrix for every state and event.
\<close>

definition getNextState ::
  "KvStorePeerState option \<Rightarrow> KvStorePeerEvent \<Rightarrow> error + KvStorePeerState" where
  "getNextState currState event =
    (case currState of
       None \<Rightarrow> Inl CheckFailed
     | Some s \<Rightarrow>
        (case (stateMap ! state_index s) ! event_index event of
           None \<Rightarrow> Inl CheckFailed
         | Some nextState \<Rightarrow> Inr nextState))"

text \<open>The transition table as the specification prints it; \<open>None\<close> is an undefined cell.\<close>

fun spec_transition :: "KvStorePeerState \<Rightarrow> KvStorePeerEvent \<Rightarrow> KvStorePeerState option" where
  "spec_transition IDLE PEER_ADD = Some SYNCING"
| "spec_transition IDLE THRIFT_API_ERROR = Some IDLE"
| "spec_transition SYNCING SYNC_RESP_RCVD = Some INITIALIZED"
| "spec_transition SYNCING THRIFT_API_ERROR = Some IDLE"
| "spec_transition INITIALIZED SYNC_RESP_RCVD = Some INITIALIZED"
| "spec_transition INITIALIZED THRIFT_API_ERROR = Some IDLE"
| "spec_transition _ _ = None"

section \<open>Conflict resolution: \<open>KvStore::mergeKeyValues\<close>\<close>

text \<open>
  What the merge code uses and the sources do not contain: \<open>std::string::compare\<close>
  (the C++ standard fixes only the sign of its result), the function \<open>generateHash\<close>
  and the constants \<open>Constants::kTtlInfinity\<close>, \<open>Constants::kTtlThreshold\<close>,
  \<open>Constants::kFloodPendingPublication\<close> (milliseconds),
  \<open>Constants::kMaxFullSyncPendingCountThreshold\<close> and \<open>Constants::kMaxBackoff\<close>
  (milliseconds). They are parameters of the model.
\<close>

record Lib =
  str_compare :: "string \<Rightarrow> string \<Rightarrow> int"
  generateHash :: "int \<Rightarrow> string \<Rightarrow> string option \<Rightarrow> int"
  kTtlInfinity :: int
  kTtlThreshold :: int
  kFloodPendingPublication :: int
  kMaxFullSyncPendingCountThreshold :: nat
  kMaxBackoff :: int

text \<open>What the C++ standard promises of \<open>compare\<close>: the sign of the result.\<close>

definition std_compare :: "(string \<Rightarrow> string \<Rightarrow> int) \<Rightarrow> bool" where
  "std_compare cmp = (\<forall>a b. (cmp a b < 0) = (a < b) \<and> (cmp a b = 0) = (a = b))"

text \<open>One implementation that keeps the promise, for evaluating the model.\<close>

definition sign_compare :: "string \<Rightarrow> string \<Rightarrow> int" where
  "sign_compare a b = (if a < b then - 1 else if a = b then 0 else 1)"

definition lib0 :: Lib where
  "lib0 = \<lparr> str_compare = sign_compare, generateHash = (\<lambda>v orig p. 0),
            kTtlInfinity = - 2147483648, kTtlThreshold = 500,
            kFloodPendingPublication = 100, kMaxFullSyncPendingCountThreshold = 32,
            kMaxBackoff = 8000 \<rparr>"

text \<open>\<open>KvStoreFilters::keyMatch\<close>, when a filter is configured.\<close>

type_synonym KvStoreFilters = "string \<Rightarrow> Value \<Rightarrow> bool"

text \<open>
  The state of the loop in \<open>mergeKeyValues\<close>: the store it updates in place, the
  updates it returns, and its two counters (\<open>uint32_t\<close>).
\<close>

record MergeState =
  kvStore :: KeyVals
  kvUpdates :: KeyValList
  ttlUpdateCnt :: "32 word"
  valUpdateCnt :: "32 word"

text \<open>\<open>unordered_map::emplace\<close> keeps an entry that is already there.\<close>

definition emplace :: "('k \<times> 'v) list \<Rightarrow> 'k \<Rightarrow> 'v \<Rightarrow> ('k \<times> 'v) list" where
  "emplace m k v = (case map_of m k of None \<Rightarrow> m @ [(k, v)] | Some _ \<Rightarrow> m)"

text \<open>
  The first block of the loop body (``Check updateAll and updateTtl''), for an incoming
  value with a payload. \<open>kvStoreIt\<close> is the result of \<open>kvStore.find(key)\<close>; the
  branches after the version test read \<open>kvStoreIt->second\<close> without testing the
  iterator, and \<open>*kvStoreIt->second.value_ref()\<close> without testing the optional.
  The result is \<open>(updateAllNeeded, updateTtlNeeded)\<close>.
\<close>

definition checkUpdateAll ::
  "Lib \<Rightarrow> Value option \<Rightarrow> Value \<Rightarrow> int \<Rightarrow> int \<Rightarrow> error + (bool \<times> bool)" where
  "checkUpdateAll L kvStoreIt value myVersion newVersion =
    (case val value of
       None \<Rightarrow> Inr (False, False)
     | Some v \<Rightarrow>
        if newVersion > myVersion then Inr (True, False)
        else
          (case kvStoreIt of
             None \<Rightarrow> Inl EndIteratorDeref
           | Some cur \<Rightarrow>
              if originatorId value > originatorId cur then Inr (True, False)
              else if originatorId value = originatorId cur then
                (case val cur of
                   None \<Rightarrow> Inl UnsetOptionalDeref
                 | Some cv \<Rightarrow>
                    (let rc = str_compare L v cv in
                     if rc > 0 then Inr (True, False)
                     else if rc = 0 then Inr (False, ttlVersion value > ttlVersion cur)
                     else Inr (False, False)))
              else Inr (False, False)))"

text \<open>The second block (``Check updateTtl''), for an incoming value without a payload.\<close>

definition checkUpdateTtl :: "Value option \<Rightarrow> Value \<Rightarrow> bool" where
  "checkUpdateTtl kvStoreIt value =
    (case kvStoreIt of
       None \<Rightarrow> False
     | Some cur \<Rightarrow>
        val value = None \<and> version value = version cur \<and>
        originatorId value = originatorId cur \<and> ttlVersion value > ttlVersion cur)"

text \<open>``update hash if it's not there'', on the record just stored.\<close>

definition fillHash :: "Lib \<Rightarrow> Value \<Rightarrow> Value" where
  "fillHash L value =
    (case hash value of
       None \<Rightarrow> value\<lparr>hash := Some (generateHash L (version value) (originatorId value) (val value))\<rparr>
     | Some _ \<Rightarrow> value)"

text \<open>One iteration of the loop: every \<open>continue\<close> returns the state unchanged.\<close>

definition mergeKeyValue ::
  "Lib \<Rightarrow> KvStoreFilters option \<Rightarrow> MergeState \<Rightarrow> string \<times> Value \<Rightarrow> error + MergeState" where
  "mergeKeyValue L filters st kv =
    (let key = fst kv; value = snd kv in
     if (case filters of None \<Rightarrow> False | Some keyMatch \<Rightarrow> \<not> keyMatch key value) then Inr st
     else if ttl value \<noteq> kTtlInfinity L \<and> ttl value \<le> 0 then Inr st
     else
      (let kvStoreIt = kvStore st key;
           myVersion = (case kvStoreIt of None \<Rightarrow> 0 | Some cur \<Rightarrow> version cur);
           newVersion = version value
       in
       if newVersion < myVersion then Inr st
       else
        (case checkUpdateAll L kvStoreIt value myVersion newVersion of
           Inl e \<Rightarrow> Inl e
         | Inr (updateAllNeeded, updateTtl0) \<Rightarrow>
            (let updateTtlNeeded = (updateTtl0 \<or> checkUpdateTtl kvStoreIt value) in
             if \<not> updateAllNeeded \<and> \<not> updateTtlNeeded then Inr st
             else if updateAllNeeded then
               (case val value of
                  None \<Rightarrow> Inl CheckFailed
                | Some _ \<Rightarrow>
                   Inr (st\<lparr> kvStore := (kvStore st)(key \<mapsto> fillHash L value),
                           kvUpdates := emplace (kvUpdates st) key value,
                           valUpdateCnt := valUpdateCnt st + 1 \<rparr>))
             else
               (case kvStoreIt of
                  None \<Rightarrow> Inl CheckFailed
                | Some cur \<Rightarrow>
                   Inr (st\<lparr> kvStore := (kvStore st)(key \<mapsto>
                                cur\<lparr>ttl := ttl value, ttlVersion := ttlVersion value\<rparr>),
                           kvUpdates := emplace (kvUpdates st) key value,
                           ttlUpdateCnt := ttlUpdateCnt st + 1 \<rparr>))))))"

text \<open>
  The loop over \<open>keyVals\<close>, given as the entries of the \<open>unordered_map\<close> in the
  order the iteration visits them; the first failure ends the run.
\<close>

fun mergeLoop ::
  "Lib \<Rightarrow> KvStoreFilters option \<Rightarrow> MergeState \<Rightarrow> (string \<times> Value) list \<Rightarrow> error + MergeState" where
  "mergeLoop L filters st [] = Inr st"
| "mergeLoop L filters st (kv # kvs) =
     (case mergeKeyValue L filters st kv of
        Inl e \<Rightarrow> Inl e
      | Inr st' \<Rightarrow> mergeLoop L filters st' kvs)"

text \<open>\<open>KvStore::mergeKeyValues\<close>: the updated store and the returned \<open>kvUpdates\<close>.\<close>

definition mergeKeyValues ::
  "Lib \<Rightarrow> KeyVals \<Rightarrow> KeyValList \<Rightarrow> KvStoreFilters option \<Rightarrow> error + (KeyVals \<times> KeyValList)" where
  "mergeKeyValues L store keyVals filters =
    (case mergeLoop L filters
            \<lparr> kvStore = store, kvUpdates = [], ttlUpdateCnt = 0, valUpdateCnt = 0 \<rparr> keyVals of
       Inl e \<Rightarrow> Inl e
     | Inr st \<Rightarrow> Inr (kvStore st, kvUpdates st))"

text \<open>A sequence of merges into the same store, one call after the other.\<close>

fun mergeSequence ::
  "Lib \<Rightarrow> KvStoreFilters option \<Rightarrow> KeyVals \<Rightarrow> (string \<times> Value) list list \<Rightarrow> error + KeyVals" where
  "mergeSequence L filters store [] = Inr store"
| "mergeSequence L filters store (keyVals # rest) =
     (case mergeKeyValues L store keyVals filters of
        Inl e \<Rightarrow> Inl e
      | Inr (store', _) \<Rightarrow> mergeSequence L filters store' rest)"

text \<open>
  The tuple order of the specification on \<open>(version, originator_id, payload)\<close>, greater
  wins: by version, then by originator id, then by payload (an absent payload below every
  present one).
\<close>

definition tuple_greater :: "Value \<Rightarrow> Value \<Rightarrow> bool" where
  "tuple_greater a b =
    (version a > version b \<or>
     (version a = version b \<and>
       (originatorId a > originatorId b \<or>
        (originatorId a = originatorId b \<and> val a > val b))))"

definition tuple_equal :: "Value \<Rightarrow> Value \<Rightarrow> bool" where
  "tuple_equal a b =
    (version a = version b \<and> originatorId a = originatorId b \<and> val a = val b)"

text \<open>A record \<open>new\<close> that may stand where \<open>cur\<close> stood after any number of accepts.\<close>

definition not_older :: "Value \<Rightarrow> Value \<Rightarrow> bool" where
  "not_older cur new =
    (tuple_greater new cur \<or> (tuple_equal new cur \<and> ttlVersion cur \<le> ttlVersion new))"

text \<open>The invariant of the store: no record without a payload.\<close>

definition payloads_present :: "KeyVals \<Rightarrow> bool" where
  "payloads_present store = (\<forall>k v. store k = Some v \<longrightarrow> val v \<noteq> None)"

text \<open>Concrete records and loop states at which the model is evaluated below.\<close>

definition rec_a1 :: Value where
  "rec_a1 = \<lparr> version = 1, originatorId = ''A'', val = Some ''x'', ttl = 10000,
              ttlVersion = 5, hash = Some 7 \<rparr>"

definition state_a1 :: MergeState where
  "state_a1 = \<lparr> kvStore = [''k'' \<mapsto> rec_a1], kvUpdates = [],
                 ttlUpdateCnt = 0, valUpdateCnt = 0 \<rparr>"

definition state_empty :: MergeState where
  "state_empty = \<lparr> kvStore = Map.empty, kvUpdates = [],
                    ttlUpdateCnt = 0, valUpdateCnt = 0 \<rparr>"

definition rec_a1_y :: Value where
  "rec_a1_y = \<lparr> version = 1, originatorId = ''A'', val = Some ''y'', ttl = 10000,
                ttlVersion = 0, hash = None \<rparr>"

definition rec_v0 :: Value where
  "rec_v0 = \<lparr> version = 0, originatorId = ''A'', val = Some ''x'', ttl = 10000,
              ttlVersion = 0, hash = None \<rparr>"

definition ttl_refresh_v2 :: Value where
  "ttl_refresh_v2 = \<lparr> version = 2, originatorId = ''A'', val = None, ttl = 10000,
                      ttlVersion = 0, hash = None \<rparr>"

definition ttl_refresh_6 :: Value where
  "ttl_refresh_6 = \<lparr> version = 1, originatorId = ''A'', val = None, ttl = 10000,
                     ttlVersion = 6, hash = None \<rparr>"

section \<open>Area lookup: \<open>KvStore::getAreaDbOrThrow\<close>\<close>

text \<open>
  \<open>Constants::kDefaultArea\<close> is declared outside the sources; the comment in
  \<open>getAreaDbOrThrow\<close> (``AreaId "0" a special area that is treated as the wildcard
  area'') and the specification give its value.
\<close>

definition kDefaultArea :: string where
  "kDefaultArea = ''0''"

text \<open>
  \<open>kvStoreDb_\<close> is an \<open>unordered_map\<close> from area id to the area's database, given
  here by its entries (one per area id): \<open>find\<close> is \<open>map_of\<close>, \<open>size\<close> the number
  of entries, and \<open>begin()\<close>, which the code reads only when there is exactly one entry,
  the first of them. The \<open>caller\<close> argument only names a counter.
\<close>

definition getAreaDbOrThrow :: "(string \<times> 'db) list \<Rightarrow> string \<Rightarrow> error + 'db" where
  "getAreaDbOrThrow kvStoreDb areaId =
    (case map_of kvStoreDb areaId of
       Some db \<Rightarrow> Inr db
     | None \<Rightarrow>
        (case kvStoreDb of
           [sole] \<Rightarrow>
             if map_of kvStoreDb kDefaultArea \<noteq> None \<or> areaId = kDefaultArea
             then Inr (snd sole)
             else Inl (KvStoreError (''Invalid area: '' @ areaId))
         | _ \<Rightarrow> Inl (KvStoreError (''Invalid area: '' @ areaId))))"

section \<open>Full-sync difference: \<open>compareValues\<close> and \<open>dumpDifference\<close>\<close>


text \<open>The thrift struct \<open>Publication\<close>.\<close>

record Publication =
  keyVals :: KeyValList
  expiredKeys :: "string list"
  nodeIds :: "string list option"
  tobeUpdatedKeys :: "string list option"
  floodRootId :: "string option"
  area :: string
  timestamp_ms :: "int option"

definition emptyPublication :: Publication where
  "emptyPublication =
    \<lparr> keyVals = [], expiredKeys = [], nodeIds = None, tobeUpdatedKeys = None,
      floodRootId = None, area = [], timestamp_ms = None \<rparr>"
















section \<open>The area database: \<open>KvStoreDb\<close>\<close>

text \<open>
  An entry of the ttl countdown queue. Points of the steady clock and durations are
  counted in milliseconds.
\<close>

record TtlCountdownQueueEntry =
  expiryTime :: int
  entryKey :: string
  entryVersion :: int
  entryTtlVersion :: int
  entryOriginatorId :: string

record PeerSpec =
  peerAddr :: string
  ctrlPort :: int
  supportFloodOptimization :: bool
  state :: KvStorePeerState

text \<open>
  \<open>KvStorePeer\<close>: \<open>client\<close> says whether the thrift client exists; the backoff
  and the keep-alive timer are left out. The pending keys are a set that the code also
  iterates: a list without repetitions.
\<close>

record KvStorePeer =
  peerSpec :: PeerSpec
  client :: bool
  numThriftApiErrors :: int
  pendingKeysDuringInitialization :: "string list"

record KeySetParams =
  paramsKeyVals :: KeyValList
  paramsNodeIds :: "string list option"
  paramsFloodRootId :: "string option"
  paramsTimestamp_ms :: "int option"
  senderId :: "string option"

text \<open>
  What a handler does to the outside, in the order it does it: a counter update, a push
  of a publication to the internal subscribers, a push of a sync event, a
  \<open>setKvStoreKeyVals\<close> request sent to a peer, a full-sync request sent to a peer
  (peer and area), a call of a throttled job, a timer scheduled or cancelled.
\<close>

datatype Effect =
    AddStatValue string int
  | UpdatesQueuePush Publication
  | EventsQueuePush string string
  | SetKvStoreKeyVals string KeySetParams
  | GetKvStoreKeyValsFilteredArea string string
  | ThrottleCall string
  | ScheduleTimeout string int
  | CancelTimeout string

text \<open>The part of \<open>kvParams_\<close> the modelled code reads.\<close>

record KvStoreParams =
  nodeId :: string
  filters :: "KvStoreFilters option"
  ttlDecr :: int
  keyTtl :: int
  enableFloodOptimization :: bool

text \<open>
  What a handler reads from outside the database while it runs: the two clocks, the
  spanning-tree layer (\<open>DualNode::getSptPeers\<close>, \<open>DualNode::getSptRootId\<close>), and
  whether a thrift client to a peer can be created, whether the sync timer is
  scheduled, and what the backoff of a peer says (\<open>expBackoff.canTryNow()\<close>,
  \<open>expBackoff.getTimeRemainingUntilRetry()\<close>, milliseconds).
\<close>

record Env =
  steadyNow :: int
  unixTimeStampMs :: int
  sptPeers :: "string option \<Rightarrow> string set"
  sptRootId :: "string option"
  createThriftClient :: "string \<Rightarrow> bool"
  thriftSyncTimerScheduled :: bool
  canTryNow :: "string \<Rightarrow> bool"
  timeRemainingUntilRetry :: "string \<Rightarrow> int"

text \<open>
  The members of \<open>KvStoreDb\<close> the modelled code touches, each under its name without the
  trailing underscore (\<open>kvStore_\<close> is \<open>areaKvStore\<close>, \<open>area_\<close> is \<open>dbArea\<close>).
  Maps that the code iterates are lists of entries; \<open>floodLimiter\<close> is the number of
  tokens the bucket holds, when a limiter is configured; \<open>effects\<close> collects what the
  handlers did, oldest first.
\<close>

record KvStoreDb =
  dbArea :: string
  areaKvStore :: KeyVals
  ttlCountdownQueue :: "TtlCountdownQueueEntry list"
  thriftPeers :: "(string \<times> KvStorePeer) list"
  selfOriginatedKeyVals :: KeyValList
  keysToAdvertise :: "string set"
  keysToUnset :: KeyValList
  publicationBuffer :: "(string option \<times> string list) list"
  floodLimiter :: "nat option"
  initialSyncCompleted :: bool
  parallelSyncLimitOverThrift :: nat
  effects :: "Effect list"

definition addEffects :: "KvStoreDb \<Rightarrow> Effect list \<Rightarrow> KvStoreDb" where
  "addEffects db es = db\<lparr> effects := effects db @ es \<rparr>"

text \<open>Operations on maps given by their entries.\<close>

definition erase :: "('k \<times> 'v) list \<Rightarrow> 'k \<Rightarrow> ('k \<times> 'v) list" where
  "erase m k = filter (\<lambda>kv. fst kv \<noteq> k) m"

definition assign :: "('k \<times> 'v) list \<Rightarrow> 'k \<Rightarrow> 'v \<Rightarrow> ('k \<times> 'v) list" where
  "assign m k v = (case map_of m k of
                     None \<Rightarrow> m @ [(k, v)]
                   | Some _ \<Rightarrow> map (\<lambda>kv. if fst kv = k then (k, v) else kv) m)"

definition insertKey :: "string list \<Rightarrow> string \<Rightarrow> string list" where
  "insertKey ks k = (if k \<in> set ks then ks else ks @ [k])"

subsection \<open>Outbound ttl: \<open>updatePublicationTtl\<close>\<close>

text \<open>
  One iteration of the loop of \<open>KvStoreDb::updatePublicationTtl\<close> over the countdown
  queue, on the key-values of the publication.
\<close>

definition updateTtlFromEntry ::
  "Lib \<Rightarrow> int \<Rightarrow> int \<Rightarrow> bool \<Rightarrow> KeyValList \<Rightarrow> TtlCountdownQueueEntry \<Rightarrow> KeyValList" where
  "updateTtlFromEntry L timeNow ttlDecrMs removeAboutToExpire kvs qE =
    (case map_of kvs (entryKey qE) of
       None \<Rightarrow> kvs
     | Some kv \<Rightarrow>
        if version kv \<noteq> entryVersion qE \<or> originatorId kv \<noteq> entryOriginatorId qE \<or>
           ttlVersion kv \<noteq> entryTtlVersion qE
        then kvs
        else
          (let timeLeft = expiryTime qE - timeNow in
           if timeLeft \<le> ttlDecrMs then erase kvs (entryKey qE)
           else if removeAboutToExpire \<and> timeLeft < kTtlThreshold L then erase kvs (entryKey qE)
           else assign kvs (entryKey qE) (kv\<lparr> ttl := timeLeft - ttlDecrMs \<rparr>)))"

text \<open>
  \<open>updatePublicationTtl\<close>, over the queue in the order the iteration visits it. The
  member function of the sources takes \<open>removeAboutToExpire\<close>; the calls
  \<open>updatePublicationTtl(ttlCountdownQueue_, kvParams_.ttlDecr, pub)\<close> leave it to its
  default, false.
\<close>

definition updatePublicationTtl ::
  "Lib \<Rightarrow> int \<Rightarrow> TtlCountdownQueueEntry list \<Rightarrow> int \<Rightarrow> Publication \<Rightarrow> bool \<Rightarrow> Publication" where
  "updatePublicationTtl L timeNow queue ttlDecrMs thriftPub removeAboutToExpire =
    thriftPub\<lparr> keyVals :=
      foldl (updateTtlFromEntry L timeNow ttlDecrMs removeAboutToExpire) (keyVals thriftPub) queue \<rparr>"

text \<open>\<open>KvStoreDb::getKeyVals\<close>: \<open>keyVals[key] = it->second\<close> for every key found.\<close>

definition getKeyVals :: "KvStoreDb \<Rightarrow> string list \<Rightarrow> Publication" where
  "getKeyVals db keys =
    foldl (\<lambda>thriftPub key.
             case areaKvStore db key of
               None \<Rightarrow> thriftPub
             | Some v \<Rightarrow> thriftPub\<lparr> keyVals := assign (keyVals thriftPub) key v \<rparr>)
      (emptyPublication\<lparr> area := dbArea db \<rparr>) keys"

text \<open>The handler of the get request, \<open>semifuture_getKvStoreKeyVals\<close>.\<close>

definition getKvStoreKeyVals ::
  "Lib \<Rightarrow> KvStoreParams \<Rightarrow> Env \<Rightarrow> (string \<times> KvStoreDb) list \<Rightarrow> string \<Rightarrow> string list
     \<Rightarrow> error + Publication" where
  "getKvStoreKeyVals L P E kvStoreDb areaId keys =
    (case getAreaDbOrThrow kvStoreDb areaId of
       Inl e \<Rightarrow> Inl e
     | Inr db \<Rightarrow>
        Inr (updatePublicationTtl L (steadyNow E) (ttlCountdownQueue db) (ttlDecr P)
               (getKeyVals db keys) False))"

text \<open>
  \<open>ttlCountdownQueue_\<close> is a priority queue: the code uses its \<open>push\<close>, \<open>top\<close>,
  \<open>pop\<close> and \<open>empty\<close>, and iterates over it. Its declaration is in a header the
  sources lack. It is taken here as the binary heap that a priority queue keeps in a
  vector, the entry that expires first at the front: \<open>top\<close> is the first element,
  \<open>push\<close> appends the entry and lets it rise while its parent expires strictly later,
  and the iteration visits the vector in order.
\<close>

fun siftUp :: "TtlCountdownQueueEntry list \<Rightarrow> nat \<Rightarrow> TtlCountdownQueueEntry list" where
  "siftUp q i =
    (if i = 0 then q
     else if expiryTime (q ! ((i - 1) div 2)) > expiryTime (q ! i)
     then siftUp (q[(i - 1) div 2 := q ! i, i := q ! ((i - 1) div 2)]) ((i - 1) div 2)
     else q)"

declare siftUp.simps [simp del]

definition pushHeap ::
  "TtlCountdownQueueEntry list \<Rightarrow> TtlCountdownQueueEntry \<Rightarrow> TtlCountdownQueueEntry list" where
  "pushHeap q queueEntry = siftUp (q @ [queueEntry]) (length q)"

text \<open>
  \<open>KvStoreDb::updateTtlCountdownQueue\<close>: an entry for every key-value of the publication
  with a finite ttl, and the countdown timer rescheduled when the queue is empty or the
  entry expires no later than its top.
\<close>

definition pushTtlEntry ::
  "Lib \<Rightarrow> Env \<Rightarrow> KvStoreDb \<Rightarrow> string \<times> Value \<Rightarrow> KvStoreDb" where
  "pushTtlEntry L E db kv =
    (let key = fst kv; value = snd kv in
     if ttl value \<noteq> kTtlInfinity L then
       (let queueEntry = \<lparr> expiryTime = steadyNow E + ttl value, entryKey = key,
                            entryVersion = version value, entryTtlVersion = ttlVersion value,
                            entryOriginatorId = originatorId value \<rparr>;
            db1 = (if (case ttlCountdownQueue db of
                         [] \<Rightarrow> True
                       | front # _ \<Rightarrow> expiryTime queueEntry \<le> expiryTime front)
                   then addEffects db [ScheduleTimeout ''ttlCountdownTimer'' (ttl value)]
                   else db)
        in db1\<lparr> ttlCountdownQueue := pushHeap (ttlCountdownQueue db1) queueEntry \<rparr>)
     else db)"

definition updateTtlCountdownQueue ::
  "Lib \<Rightarrow> Env \<Rightarrow> KvStoreDb \<Rightarrow> Publication \<Rightarrow> KvStoreDb" where
  "updateTtlCountdownQueue L E db publication = foldl (pushTtlEntry L E) db (keyVals publication)"

subsection \<open>Flooding\<close>

text \<open>\<open>KvStoreDb::bufferPublication\<close>: the keys are remembered under the flood root.\<close>

definition bufferKey ::
  "string option \<Rightarrow> (string option \<times> string list) list \<Rightarrow> string
     \<Rightarrow> (string option \<times> string list) list" where
  "bufferKey root buf key =
    (case map_of buf root of
       None \<Rightarrow> buf @ [(root, [key])]
     | Some ks \<Rightarrow> map (\<lambda>e. if fst e = root then (root, insertKey ks key) else e) buf)"

definition bufferPublication :: "KvStoreDb \<Rightarrow> Publication \<Rightarrow> KvStoreDb" where
  "bufferPublication db publication =
    (let db1 = addEffects db
                 [AddStatValue ''kvstore.rate_limit_suppress'' 1,
                  AddStatValue ''kvstore.rate_limit_keys'' (int (length (keyVals publication)))];
         buf1 = foldl (bufferKey (floodRootId publication)) (publicationBuffer db1)
                  (map fst (keyVals publication));
         buf2 = foldl (bufferKey (floodRootId publication)) buf1 (expiredKeys publication)
     in db1\<lparr> publicationBuffer := buf2 \<rparr>)"

text \<open>
  \<open>KvStoreDb::processPublicationForSelfOriginatedKey\<close>, one received key-value at a
  time; \<open>*currValue.value_ref()\<close> is read only when the originator is this node.
\<close>

definition processSelfOriginatedKey ::
  "KvStoreParams \<Rightarrow> KvStoreDb \<Rightarrow> string \<times> Value \<Rightarrow> error + KvStoreDb" where
  "processSelfOriginatedKey P db kv =
    (let key = fst kv; rcvdValue = snd kv in
     case val rcvdValue of
       None \<Rightarrow> Inr db
     | Some rcvdPayload \<Rightarrow>
        (case map_of (selfOriginatedKeyVals db) key of
           None \<Rightarrow> Inr db
         | Some currValue \<Rightarrow>
            if version currValue > version rcvdValue then Inr db
            else
              (case (if version currValue < version rcvdValue then Inr True
                     else if originatorId rcvdValue \<noteq> nodeId P then Inr True
                     else (case val currValue of
                             None \<Rightarrow> Inl UnsetOptionalDeref
                           | Some currPayload \<Rightarrow> Inr (currPayload \<noteq> rcvdPayload))) of
                 Inl e \<Rightarrow> Inl e
               | Inr shouldOverride \<Rightarrow>
                  if shouldOverride then
                    (if version rcvdValue = int64_max then Inl SignedOverflow
                     else Inr (db\<lparr> selfOriginatedKeyVals :=
                                      assign (selfOriginatedKeyVals db) key
                                        (currValue\<lparr> ttlVersion := 0,
                                                    version := version rcvdValue + 1 \<rparr>),
                                    keysToAdvertise := insert key (keysToAdvertise db) \<rparr>))
                  else if ttlVersion currValue < ttlVersion rcvdValue then
                    Inr (db\<lparr> selfOriginatedKeyVals :=
                                 assign (selfOriginatedKeyVals db) key
                                   (currValue\<lparr> ttlVersion := ttlVersion rcvdValue \<rparr>) \<rparr>)
                  else Inr db)))"

fun processSelfOriginatedKeys ::
  "KvStoreParams \<Rightarrow> KvStoreDb \<Rightarrow> KeyValList \<Rightarrow> error + KvStoreDb" where
  "processSelfOriginatedKeys P db [] = Inr db"
| "processSelfOriginatedKeys P db (kv # kvs) =
     (case processSelfOriginatedKey P db kv of
        Inl e \<Rightarrow> Inl e
      | Inr db' \<Rightarrow> processSelfOriginatedKeys P db' kvs)"

definition processPublicationForSelfOriginatedKey ::
  "KvStoreParams \<Rightarrow> KvStoreDb \<Rightarrow> Publication \<Rightarrow> error + KvStoreDb" where
  "processPublicationForSelfOriginatedKey P db publication =
    (if selfOriginatedKeyVals db = [] then Inr db
     else
       (case processSelfOriginatedKeys P db (keyVals publication) of
          Inl e \<Rightarrow> Inl e
        | Inr db' \<Rightarrow> Inr (addEffects db' [ThrottleCall ''advertiseSelfOriginatedKeysThrottled''])))"

text \<open>\<open>KvStoreDb::getFloodPeers\<close>.\<close>

definition getFloodPeers ::
  "KvStoreParams \<Rightarrow> Env \<Rightarrow> KvStoreDb \<Rightarrow> string option \<Rightarrow> string list" where
  "getFloodPeers P E db rootId =
    (let floodToAll = (\<not> enableFloodOptimization P \<or> sptPeers E rootId = {}) in
     map fst (filter (\<lambda>np. floodToAll \<or> fst np \<in> sptPeers E rootId \<or>
                             \<not> supportFloodOptimization (peerSpec (snd np)))
                (thriftPeers db)))"

text \<open>
  One iteration of the loop of \<open>floodPublication\<close> over the flood peers: not back to the
  sender; a peer that is not INITIALIZED only has the keys noted; every other peer is sent
  the request through its client.
\<close>

definition updatePeer ::
  "(string \<times> KvStorePeer) list \<Rightarrow> string \<Rightarrow> (KvStorePeer \<Rightarrow> KvStorePeer)
     \<Rightarrow> (string \<times> KvStorePeer) list" where
  "updatePeer peers name f = map (\<lambda>np. if fst np = name then (name, f (snd np)) else np) peers"

definition floodToPeer ::
  "string option \<Rightarrow> KeySetParams \<Rightarrow> KvStoreDb \<Rightarrow> string \<Rightarrow> error + KvStoreDb" where
  "floodToPeer sender params db peerName =
    (case map_of (thriftPeers db) peerName of
       None \<Rightarrow> Inr db
     | Some thriftPeer \<Rightarrow>
        if sender = Some peerName then Inr db
        else if state (peerSpec thriftPeer) \<noteq> INITIALIZED then
          Inr (db\<lparr> thriftPeers := updatePeer (thriftPeers db) peerName
                  (\<lambda>p. p\<lparr> pendingKeysDuringInitialization :=
                             foldl insertKey (pendingKeysDuringInitialization p)
                               (map fst (paramsKeyVals params)) \<rparr>) \<rparr>)
        else if \<not> client thriftPeer then Inl NullPointerDeref
        else
          Inr (addEffects db
                 [AddStatValue ''kvstore.thrift.num_flood_pub'' 1,
                  AddStatValue ''kvstore.thrift.num_flood_key_vals''
                    (int (length (paramsKeyVals params))),
                  SetKvStoreKeyVals peerName params]))"

fun floodToPeers ::
  "string option \<Rightarrow> KeySetParams \<Rightarrow> KvStoreDb \<Rightarrow> string list \<Rightarrow> error + KvStoreDb" where
  "floodToPeers sender params db [] = Inr db"
| "floodToPeers sender params db (peerName # rest) =
     (case floodToPeer sender params db peerName of
        Inl e \<Rightarrow> Inl e
      | Inr db' \<Rightarrow> floodToPeers sender params db' rest)"

text \<open>
  \<open>KvStoreDb::floodPublication\<close> after its two early exits (rate limit, pending
  buffer): the ttl update, the push to the internal subscribers, the self-originated keys,
  and the requests to the peers.
\<close>

definition floodPublicationNow ::
  "Lib \<Rightarrow> KvStoreParams \<Rightarrow> Env \<Rightarrow> KvStoreDb \<Rightarrow> Publication \<Rightarrow> bool \<Rightarrow> error + KvStoreDb" where
  "floodPublicationNow L P E db publication0 setFloodRoot =
    (let publication1 = updatePublicationTtl L (steadyNow E) (ttlCountdownQueue db) (ttlDecr P)
                          publication0 False in
     if keyVals publication1 = [] \<and> expiredKeys publication1 = [] then Inr db
     else
       (let sender = (case nodeIds publication1 of
                        None \<Rightarrow> None
                      | Some ids \<Rightarrow> if ids = [] then None else Some (last ids));
            publication2 = publication1\<lparr> nodeIds :=
                             Some ((case nodeIds publication1 of None \<Rightarrow> [] | Some ids \<Rightarrow> ids)
                                   @ [nodeId P]) \<rparr>;
            db1 = addEffects db [UpdatesQueuePush publication2,
                                 AddStatValue ''kvstore.num_updates'' 1]
        in
        case processPublicationForSelfOriginatedKey P db1 publication2 of
          Inl e \<Rightarrow> Inl e
        | Inr db2 \<Rightarrow>
           if keyVals publication2 = [] then Inr db2
           else
             (let publication3 = (if setFloodRoot \<and> sender = None
                                  then publication2\<lparr> floodRootId := sptRootId E \<rparr>
                                  else publication2);
                  params = \<lparr> paramsKeyVals = keyVals publication3,
                             paramsNodeIds = nodeIds publication3,
                             paramsFloodRootId = floodRootId publication3,
                             paramsTimestamp_ms = Some (unixTimeStampMs E),
                             senderId = Some (nodeId P) \<rparr>
              in floodToPeers sender params db2
                   (getFloodPeers P E db2 (paramsFloodRootId params)))))"

text \<open>
  \<open>KvStoreDb::floodBufferedUpdates\<close>: one publication per flood root, built from the
  store as it is now, the buffer cleared, and each publication flooded with
  \<open>floodPublication(pub, false, false)\<close>. That call meets no rate limit and an empty
  buffer (nothing below adds to it), so it is \<open>floodPublicationNow\<close>.
\<close>

definition bufferedPublication :: "KvStoreDb \<Rightarrow> string option \<times> string list \<Rightarrow> Publication" where
  "bufferedPublication db entry =
    foldl (\<lambda>publication key.
             case areaKvStore db key of
               Some v \<Rightarrow> publication\<lparr> keyVals := emplace (keyVals publication) key v \<rparr>
             | None \<Rightarrow> publication\<lparr> expiredKeys := expiredKeys publication @ [key] \<rparr>)
      (emptyPublication\<lparr> floodRootId := fst entry \<rparr>) (snd entry)"

fun floodPublications ::
  "Lib \<Rightarrow> KvStoreParams \<Rightarrow> Env \<Rightarrow> KvStoreDb \<Rightarrow> Publication list \<Rightarrow> error + KvStoreDb" where
  "floodPublications L P E db [] = Inr db"
| "floodPublications L P E db (pub # pubs) =
     (case floodPublicationNow L P E db pub False of
        Inl e \<Rightarrow> Inl e
      | Inr db' \<Rightarrow> floodPublications L P E db' pubs)"

definition floodBufferedUpdates ::
  "Lib \<Rightarrow> KvStoreParams \<Rightarrow> Env \<Rightarrow> KvStoreDb \<Rightarrow> error + KvStoreDb" where
  "floodBufferedUpdates L P E db =
    (if publicationBuffer db = [] then Inr db
     else
       (let publications = map (bufferedPublication db) (publicationBuffer db)
        in floodPublications L P E (db\<lparr> publicationBuffer := [] \<rparr>) publications))"

text \<open>
  \<open>KvStoreDb::floodPublication\<close>. \<open>consume(1)\<close> takes a token when there is one.
\<close>

definition floodPublication ::
  "Lib \<Rightarrow> KvStoreParams \<Rightarrow> Env \<Rightarrow> KvStoreDb \<Rightarrow> Publication \<Rightarrow> bool \<Rightarrow> bool
     \<Rightarrow> error + KvStoreDb" where
  "floodPublication L P E db publication rateLimit setFloodRoot =
    (if floodLimiter db \<noteq> None \<and> rateLimit \<and> floodLimiter db = Some 0 then
       Inr (addEffects (bufferPublication db publication)
              [ScheduleTimeout ''pendingPublicationTimer'' (kFloodPendingPublication L)])
     else
       (let db1 = (case floodLimiter db of
                     Some tokens \<Rightarrow> if rateLimit then db\<lparr> floodLimiter := Some (tokens - 1) \<rparr> else db
                   | None \<Rightarrow> db)
        in
        if publicationBuffer db1 \<noteq> [] then
          floodBufferedUpdates L P E (bufferPublication db1 publication)
        else floodPublicationNow L P E db1 publication setFloodRoot))"

text \<open>\<open>KvStoreDb::finalizeFullSync\<close>, the third leg of the full sync.\<close>

definition finalizeFullSync ::
  "Lib \<Rightarrow> KvStoreParams \<Rightarrow> Env \<Rightarrow> KvStoreDb \<Rightarrow> string list \<Rightarrow> string \<Rightarrow> error + KvStoreDb" where
  "finalizeFullSync L P E db keys sender =
    (let updates0 = foldl (\<lambda>updates key.
                             case areaKvStore db key of
                               None \<Rightarrow> updates
                             | Some v \<Rightarrow> updates\<lparr> keyVals := emplace (keyVals updates) key v \<rparr>)
                      emptyPublication keys;
         updates = updatePublicationTtl L (steadyNow E) (ttlCountdownQueue db) (ttlDecr P)
                     updates0 False
     in
     if keyVals updates = [] then Inr db
     else
       (case map_of (thriftPeers db) sender of
          None \<Rightarrow> Inr db
        | Some thriftPeer \<Rightarrow>
           if state (peerSpec thriftPeer) = IDLE \<or> \<not> client thriftPeer then Inr db
           else
             Inr (addEffects db
                    [AddStatValue ''kvstore.thrift.num_finalized_sync'' 1,
                     SetKvStoreKeyVals sender
                       \<lparr> paramsKeyVals = keyVals updates,
                         paramsNodeIds = Some [nodeId P],
                         paramsFloodRootId = sptRootId E,
                         paramsTimestamp_ms = Some (unixTimeStampMs E),
                         senderId = Some (nodeId P) \<rparr>])))"

subsection \<open>Receiving a publication: \<open>mergePublication\<close>\<close>

text \<open>
  \<open>KvStoreDb::mergePublication\<close>, in two parts. The first part counts the publication,
  collects the keys to send back (those the publication asks for and those pending for the
  sender, which are taken from the peer), and leaves with 0 when there is nothing to do
  or when the publication has already passed through this node.
\<close>

definition takePendingKeys ::
  "KvStoreDb \<Rightarrow> string option \<Rightarrow> string list \<Rightarrow> KvStoreDb \<times> string list" where
  "takePendingKeys db sender keysTobeUpdated =
    (case sender of
       None \<Rightarrow> (db, keysTobeUpdated)
     | Some name \<Rightarrow>
        (case map_of (thriftPeers db) name of
           None \<Rightarrow> (db, keysTobeUpdated)
         | Some peer \<Rightarrow>
            (db\<lparr> thriftPeers := updatePeer (thriftPeers db) name
                   (\<lambda>p. p\<lparr> pendingKeysDuringInitialization := [] \<rparr>) \<rparr>,
             foldl insertKey keysTobeUpdated (pendingKeysDuringInitialization peer))))"

text \<open>
  The second part: the merge into the store (the call
  \<open>mergeKeyValues(kvStore_, keyVals, filters)\<close>, for which the sources hold
  \<open>KvStore::mergeKeyValues\<close>), the countdown entries, the flood of the delta with the
  default arguments of \<open>floodPublication\<close> (rate limit on, flood root set), and the
  finalizing request to the sender.
\<close>

definition mergeAndFlood ::
  "Lib \<Rightarrow> KvStoreParams \<Rightarrow> Env \<Rightarrow> KvStoreDb \<Rightarrow> Publication \<Rightarrow> string option \<Rightarrow> string list
     \<Rightarrow> bool \<Rightarrow> error + (KvStoreDb \<times> nat)" where
  "mergeAndFlood L P E db rcvdPublication sender keysTobeUpdated needFinalizeFullSync =
    (case mergeKeyValues L (areaKvStore db) (keyVals rcvdPublication) (filters P) of
       Inl e \<Rightarrow> Inl e
     | Inr (store', delta) \<Rightarrow>
        (let deltaPublication = emptyPublication\<lparr> keyVals := delta,
                                  floodRootId := floodRootId rcvdPublication,
                                  area := dbArea db,
                                  nodeIds := nodeIds rcvdPublication \<rparr>;
             kvUpdateCnt = length delta;
             db1 = addEffects (db\<lparr> areaKvStore := store' \<rparr>)
                     [AddStatValue ''kvstore.updated_key_vals'' (int kvUpdateCnt),
                      AddStatValue (''kvstore.updated_key_vals.'' @ dbArea db) (int kvUpdateCnt)];
             db2 = updateTtlCountdownQueue L E db1 deltaPublication
         in
         case (if delta \<noteq> [] then floodPublication L P E db2 deltaPublication True True
               else Inr (addEffects db2
                           [AddStatValue ''kvstore.received_redundant_publications'' 1])) of
           Inl e \<Rightarrow> Inl e
         | Inr db3 \<Rightarrow>
            (case (if needFinalizeFullSync
                   then (case sender of
                           None \<Rightarrow> Inl UnsetOptionalDeref
                         | Some name \<Rightarrow> finalizeFullSync L P E db3 keysTobeUpdated name)
                   else Inr db3) of
               Inl e \<Rightarrow> Inl e
             | Inr db4 \<Rightarrow> Inr (db4, kvUpdateCnt))))"

definition mergePublication ::
  "Lib \<Rightarrow> KvStoreParams \<Rightarrow> Env \<Rightarrow> KvStoreDb \<Rightarrow> Publication \<Rightarrow> string option
     \<Rightarrow> error + (KvStoreDb \<times> nat)" where
  "mergePublication L P E db rcvdPublication sender =
    (let db1 = addEffects db
                 [AddStatValue ''kvstore.received_publications'' 1,
                  AddStatValue (''kvstore.received_publications.'' @ dbArea db) 1,
                  AddStatValue ''kvstore.received_key_vals''
                    (int (length (keyVals rcvdPublication))),
                  AddStatValue (''kvstore.received_key_vals.'' @ dbArea db)
                    (int (length (keyVals rcvdPublication)))];
         keys0 = foldl insertKey []
                   (case tobeUpdatedKeys rcvdPublication of None \<Rightarrow> [] | Some ks \<Rightarrow> ks);
         db2 = fst (takePendingKeys db1 sender keys0);
         keysTobeUpdated = snd (takePendingKeys db1 sender keys0);
         needFinalizeFullSync = (sender \<noteq> None \<and> keysTobeUpdated \<noteq> [])
     in
     if keyVals rcvdPublication = [] \<and> \<not> needFinalizeFullSync then Inr (db2, 0)
     else if (case nodeIds rcvdPublication of
                None \<Rightarrow> False
              | Some ids \<Rightarrow> nodeId P \<in> set ids) then
       Inr (addEffects db2 [AddStatValue ''kvstore.looped_publications'' 1], 0)
     else mergeAndFlood L P E db2 rcvdPublication sender keysTobeUpdated needFinalizeFullSync)"

text \<open>\<open>KvStoreDb::setKeyVals\<close>: the hash of every key-value with a payload is set anew.\<close>

definition setHash :: "Lib \<Rightarrow> Value \<Rightarrow> Value" where
  "setHash L value =
    (case val value of
       None \<Rightarrow> value
     | Some _ \<Rightarrow> value\<lparr> hash := Some (generateHash L (version value) (originatorId value)
                                        (val value)) \<rparr>)"

definition setKeyVals ::
  "Lib \<Rightarrow> KvStoreParams \<Rightarrow> Env \<Rightarrow> KvStoreDb \<Rightarrow> KeySetParams \<Rightarrow> error + KvStoreDb" where
  "setKeyVals L P E db setParams =
    (let db1 = addEffects db [AddStatValue ''kvstore.cmd_key_set'' 1];
         db2 = (case paramsTimestamp_ms setParams of
                  None \<Rightarrow> db1
                | Some ts \<Rightarrow>
                   if unixTimeStampMs E - ts > 0
                   then addEffects db1
                          [AddStatValue ''kvstore.flood_duration_ms'' (unixTimeStampMs E - ts)]
                   else db1);
         rcvdPublication = emptyPublication\<lparr>
             keyVals := map (\<lambda>kv. (fst kv, setHash L (snd kv))) (paramsKeyVals setParams),
             nodeIds := paramsNodeIds setParams,
             floodRootId := paramsFloodRootId setParams \<rparr>
     in
     case mergePublication L P E db2 rcvdPublication None of
       Inl e \<Rightarrow> Inl e
     | Inr (db3, _) \<Rightarrow> Inr db3)"

subsection \<open>Self-originated keys\<close>

text \<open>\<open>KvStoreDb::eraseSelfOriginatedKey\<close> and \<open>KvStoreDb::unsetSelfOriginatedKey\<close>.\<close>

definition eraseSelfOriginatedKey :: "KvStoreDb \<Rightarrow> string \<Rightarrow> KvStoreDb" where
  "eraseSelfOriginatedKey db key =
    db\<lparr> selfOriginatedKeyVals := erase (selfOriginatedKeyVals db) key,
        keysToAdvertise := keysToAdvertise db - {key} \<rparr>"

definition unsetSelfOriginatedKey ::
  "KvStoreParams \<Rightarrow> KvStoreDb \<Rightarrow> string \<Rightarrow> string \<Rightarrow> error + KvStoreDb" where
  "unsetSelfOriginatedKey P db key value =
    (let db1 = eraseSelfOriginatedKey db key in
     case areaKvStore db1 key of
       None \<Rightarrow> Inr db1
     | Some stored \<Rightarrow>
        if version stored = int64_max then Inl SignedOverflow
        else
          (let thriftValue = stored\<lparr> originatorId := nodeId P,
                                     version := version stored + 1,
                                     ttlVersion := 0,
                                     val := Some value \<rparr>
           in Inr (addEffects (db1\<lparr> keysToUnset := emplace (keysToUnset db1) key thriftValue \<rparr>)
                     [ThrottleCall ''unsetSelfOriginatedKeysThrottled''])))"

text \<open>A node, its surroundings and an empty database, for evaluating the model.\<close>

definition params0 :: KvStoreParams where
  "params0 = \<lparr> nodeId = ''A'', filters = None, ttlDecr = 1, keyTtl = 300000,
               enableFloodOptimization = False \<rparr>"

definition env0 :: Env where
  "env0 = \<lparr> steadyNow = 0, unixTimeStampMs = 0, sptPeers = (\<lambda>root. {}), sptRootId = None,
            createThriftClient = (\<lambda>peer. True), thriftSyncTimerScheduled = False,
            canTryNow = (\<lambda>peer. True), timeRemainingUntilRetry = (\<lambda>peer. 0) \<rparr>"

definition db0 :: KvStoreDb where
  "db0 = \<lparr> dbArea = ''1'', areaKvStore = Map.empty, ttlCountdownQueue = [], thriftPeers = [],
           selfOriginatedKeyVals = [], keysToAdvertise = {}, keysToUnset = [],
           publicationBuffer = [], floodLimiter = None, initialSyncCompleted = False,
           parallelSyncLimitOverThrift = 2, effects = [] \<rparr>"

text \<open>Which effects are counter updates only.\<close>

fun isStat :: "Effect \<Rightarrow> bool" where
  "isStat (AddStatValue name v) = True"
| "isStat _ = False"

text \<open>
  The keys \<open>mergePublication\<close> would send back to the sender: the keys the publication
  asks for together with the keys pending for the sender.
\<close>

definition keysTobeUpdatedOf :: "KvStoreDb \<Rightarrow> Publication \<Rightarrow> string option \<Rightarrow> string list" where
  "keysTobeUpdatedOf db rcvdPublication sender =
    snd (takePendingKeys db sender
           (foldl insertKey []
              (case tobeUpdatedKeys rcvdPublication of None \<Rightarrow> [] | Some ks \<Rightarrow> ks)))"

definition db_cached :: KvStoreDb where
  "db_cached = db0\<lparr> selfOriginatedKeyVals := [(''k'', rec_a1)], keysToAdvertise := {''k''} \<rparr>"

definition looped_empty_pub :: Publication where
  "looped_empty_pub = emptyPublication\<lparr> nodeIds := Some [''A'', ''B''] \<rparr>"

definition looped_pub :: Publication where
  "looped_pub = emptyPublication\<lparr> keyVals := [(''k'', rec_a1)], nodeIds := Some [''A'', ''B''] \<rparr>"

text \<open>
  A countdown entry is the entry of a record when key, version, originator and ttlVersion
  agree; it is expiring for an outgoing publication when its time left is at most the
  decrement or, where asked, below the threshold.
\<close>

definition entryOf :: "string \<Rightarrow> Value \<Rightarrow> TtlCountdownQueueEntry \<Rightarrow> bool" where
  "entryOf key v qE =
    (entryKey qE = key \<and> entryVersion qE = version v \<and>
     entryOriginatorId qE = originatorId v \<and> entryTtlVersion qE = ttlVersion v)"

definition expiring :: "Lib \<Rightarrow> int \<Rightarrow> int \<Rightarrow> bool \<Rightarrow> TtlCountdownQueueEntry \<Rightarrow> bool" where
  "expiring L timeNow ttlDecrMs removeAboutToExpire qE =
    (expiryTime qE - timeNow \<le> ttlDecrMs \<or>
     (removeAboutToExpire \<and> expiryTime qE - timeNow < kTtlThreshold L))"

text \<open>
  What an outgoing publication holds for a record, given the queue: the record as it is
  when it has no entry; nothing when one of its entries is expiring; else the record with
  its ttl set to the time left of its entry (the last one visited, if there are several)
  less the decrement.
\<close>

definition outboundRecord ::
  "Lib \<Rightarrow> int \<Rightarrow> TtlCountdownQueueEntry list \<Rightarrow> int \<Rightarrow> bool \<Rightarrow> string \<Rightarrow> Value \<Rightarrow> Value option" where
  "outboundRecord L timeNow queue ttlDecrMs removeAboutToExpire key v =
    (let entries = filter (entryOf key v) queue in
     if entries = [] then Some v
     else if list_ex (expiring L timeNow ttlDecrMs removeAboutToExpire) entries then None
     else Some (v\<lparr> ttl := expiryTime (last entries) - timeNow - ttlDecrMs \<rparr>))"

text \<open>One countdown entry, seen from one key of the publication.\<close>

definition stepRecord ::
  "Lib \<Rightarrow> int \<Rightarrow> int \<Rightarrow> bool \<Rightarrow> string \<Rightarrow> Value option \<Rightarrow> TtlCountdownQueueEntry \<Rightarrow> Value option" where
  "stepRecord L timeNow ttlDecrMs rm key r qE =
    (case r of
       None \<Rightarrow> None
     | Some v \<Rightarrow>
        if entryOf key v qE then
          (if expiring L timeNow ttlDecrMs rm qE then None
           else Some (v\<lparr> ttl := expiryTime qE - timeNow - ttlDecrMs \<rparr>))
        else Some v)"

text \<open>
  Two records of originator B with the same version and ttlVersion: one with a ttl of ten
  seconds, one with a greater payload and the INFINITE ttl; and the set request for one
  key-value.
\<close>

definition rec_finite :: Value where
  "rec_finite = \<lparr> version = 1, originatorId = ''B'', val = Some ''x'', ttl = 10000,
                  ttlVersion = 0, hash = None \<rparr>"

definition rec_infinite :: Value where
  "rec_infinite = \<lparr> version = 1, originatorId = ''B'', val = Some ''y'',
                    ttl = - 2147483648, ttlVersion = 0, hash = None \<rparr>"

definition setRequest :: "Value \<Rightarrow> KeySetParams" where
  "setRequest v = \<lparr> paramsKeyVals = [(''k'', v)], paramsNodeIds = None,
                    paramsFloodRootId = None, paramsTimestamp_ms = None, senderId = None \<rparr>"

subsection \<open>Initial synchronization\<close>

text \<open>
  The loop of \<open>KvStoreDb::processInitializationEvent\<close> over the peers: it leaves at the
  first peer that is neither INITIALIZED nor has met a thrift error.
\<close>

fun peersSynced :: "(string \<times> KvStorePeer) list \<Rightarrow> bool" where
  "peersSynced [] = True"
| "peersSynced (np # rest) =
     (if state (peerSpec (snd np)) = INITIALIZED then peersSynced rest
      else if numThriftApiErrors (snd np) > 0 then peersSynced rest
      else False)"

text \<open>
  \<open>KvStoreDb::processInitializationEvent\<close>; the second component says whether
  \<open>initialKvStoreSyncedCallback_\<close> was called.
\<close>

definition processInitializationEvent :: "KvStoreDb \<Rightarrow> KvStoreDb \<times> bool" where
  "processInitializationEvent db =
    (if peersSynced (thriftPeers db) then (db\<lparr> initialSyncCompleted := True \<rparr>, True)
     else (db, False))"

definition getPeersByState :: "KvStoreDb \<Rightarrow> KvStorePeerState \<Rightarrow> string list" where
  "getPeersByState db s = map fst (filter (\<lambda>np. state (peerSpec (snd np)) = s) (thriftPeers db))"

text \<open>
  \<open>KvStoreDb::processThriftSuccess\<close>, the callback of a full-sync response. The state
  of the peer is read again after the merge, which removes no peer.
\<close>

definition processThriftSuccess ::
  "Lib \<Rightarrow> KvStoreParams \<Rightarrow> Env \<Rightarrow> KvStoreDb \<Rightarrow> string \<Rightarrow> Publication \<Rightarrow> int
     \<Rightarrow> error + (KvStoreDb \<times> bool)" where
  "processThriftSuccess L P E db peerName pub timeDelta =
    (case map_of (thriftPeers db) peerName of
       None \<Rightarrow> Inr (db, False)
     | Some peer0 \<Rightarrow>
        if state (peerSpec peer0) = IDLE then Inr (db, False)
        else
          (case mergePublication L P E db pub (Some peerName) of
             Inl e \<Rightarrow> Inl e
           | Inr (db1, kvUpdateCnt) \<Rightarrow>
              (let numMissingKeys = (case tobeUpdatedKeys pub of None \<Rightarrow> 0 | Some ks \<Rightarrow> length ks);
                   db2 = addEffects db1
                     [AddStatValue ''kvstore.thrift.num_full_sync_success'' 1,
                      AddStatValue ''kvstore.thrift.full_sync_duration_ms'' timeDelta,
                      AddStatValue ''kvstore.thrift.num_missing_keys'' (int numMissingKeys),
                      AddStatValue ''kvstore.thrift.num_keyvals_update'' (int kvUpdateCnt)]
               in
               case getNextState (map_option (\<lambda>p. state (peerSpec p))
                                    (map_of (thriftPeers db2) peerName)) SYNC_RESP_RCVD of
                 Inl e \<Rightarrow> Inl e
               | Inr newState \<Rightarrow>
                  (let db3 = db2\<lparr> thriftPeers := updatePeer (thriftPeers db2) peerName
                               (\<lambda>p. p\<lparr> peerSpec := (peerSpec p)\<lparr> state := newState \<rparr> \<rparr>) \<rparr>;
                       db4 = addEffects db3 [EventsQueuePush peerName (dbArea db3)];
                       db5 = db4\<lparr> parallelSyncLimitOverThrift :=
                               min (2 * parallelSyncLimitOverThrift db4)
                                   (kMaxFullSyncPendingCountThreshold L) \<rparr>;
                       db6 = addEffects db5
                               (if getPeersByState db5 IDLE \<noteq> []
                                then [ScheduleTimeout ''thriftSyncTimer'' 0]
                                else [CancelTimeout ''thriftSyncTimer''])
                   in
                   if \<not> initialSyncCompleted db6 then Inr (processInitializationEvent db6)
                   else Inr (db6, False)))))"

text \<open>\<open>KvStoreDb::processThriftFailure\<close>, the callback of a failed request.\<close>

definition processThriftFailure ::
  "Env \<Rightarrow> KvStoreDb \<Rightarrow> string \<Rightarrow> error + (KvStoreDb \<times> bool)" where
  "processThriftFailure E db peerName =
    (case map_of (thriftPeers db) peerName of
       None \<Rightarrow> Inr (db, False)
     | Some peer0 \<Rightarrow>
        (let db1 = addEffects db [CancelTimeout (''keepAliveTimer.'' @ peerName)] in
         case getNextState (Some (state (peerSpec peer0))) THRIFT_API_ERROR of
           Inl e \<Rightarrow> Inl e
         | Inr newState \<Rightarrow>
            (let db2 = db1\<lparr> thriftPeers := updatePeer (thriftPeers db1) peerName
                         (\<lambda>p. p\<lparr> client := False,
                                  peerSpec := (peerSpec p)\<lparr> state := newState \<rparr>,
                                  numThriftApiErrors := numThriftApiErrors p + 1 \<rparr>) \<rparr>;
                 r = (if \<not> initialSyncCompleted db2 then processInitializationEvent db2
                      else (db2, False));
                 db3 = (if \<not> thriftSyncTimerScheduled E
                        then addEffects (fst r) [ScheduleTimeout ''thriftSyncTimer'' 0]
                        else fst r)
             in Inr (db3, snd r))))"

text \<open>
  \<open>KvStoreDb::addThriftPeers\<close> and \<open>KvStoreDb::delThriftPeers\<close>. A peer that is
  added, anew or again, is IDLE; a new peer has met no thrift error yet.
\<close>

definition addThriftPeer :: "Env \<Rightarrow> KvStoreDb \<Rightarrow> string \<times> PeerSpec \<Rightarrow> KvStoreDb" where
  "addThriftPeer E db np =
    (let peerName = fst np; newPeerSpec = snd np in
     case map_of (thriftPeers db) peerName of
       Some _ \<Rightarrow>
         addEffects
           (db\<lparr> thriftPeers := updatePeer (thriftPeers db) peerName
                  (\<lambda>p. p\<lparr> peerSpec := newPeerSpec\<lparr> state := IDLE \<rparr>,
                           client := createThriftClient E peerName \<rparr>) \<rparr>)
           [CancelTimeout (''keepAliveTimer.'' @ peerName)]
     | None \<Rightarrow>
         db\<lparr> thriftPeers := thriftPeers db @
                [(peerName, \<lparr> peerSpec = newPeerSpec\<lparr> state := IDLE \<rparr>,
                              client = createThriftClient E peerName,
                              numThriftApiErrors = 0,
                              pendingKeysDuringInitialization = [] \<rparr>)] \<rparr>)"

definition addThriftPeers :: "Env \<Rightarrow> KvStoreDb \<Rightarrow> (string \<times> PeerSpec) list \<Rightarrow> KvStoreDb" where
  "addThriftPeers E db peers =
    (let db1 = foldl (addThriftPeer E) db peers in
     if \<not> thriftSyncTimerScheduled E
     then addEffects db1 [ScheduleTimeout ''thriftSyncTimer'' 0] else db1)"

definition delThriftPeers :: "KvStoreDb \<Rightarrow> string list \<Rightarrow> KvStoreDb" where
  "delThriftPeers db peers =
    foldl (\<lambda>d peerName. d\<lparr> thriftPeers := erase (thriftPeers d) peerName \<rparr>) db peers"

text \<open>
  \<open>KvStoreDb::requestThriftPeerSync\<close>, the job of \<open>thriftSyncTimer_\<close>. The scan
  over the peers takes each IDLE peer whose backoff allows a try and that has, or gets, a
  thrift client: the peer becomes SYNCING and the full-sync request is sent to it (its
  parameters, built by functions the sources lack, and the keep-alive timer a new client
  starts are left out); the two callbacks of the request are \<open>processThriftSuccess\<close> and \<open>processThriftFailure\<close>. The scan ends
  early when more peers are syncing than the limit allows. Its state is the number of
  syncing peers and the timeout for the next run; its result holds the peers as the scan
  left them and the effects in order.
\<close>

fun syncScan ::
  "Lib \<Rightarrow> Env \<Rightarrow> string \<Rightarrow> nat \<Rightarrow> (string \<times> KvStorePeer) list \<Rightarrow> nat \<Rightarrow> int
     \<Rightarrow> error + ((string \<times> KvStorePeer) list \<times> Effect list \<times> nat \<times> int)" where
  "syncScan L E areaId limit [] numThriftPeersInSync timeout =
     Inr ([], [], numThriftPeersInSync, timeout)"
| "syncScan L E areaId limit (np # rest) numThriftPeersInSync timeout =
     (let peerName = fst np; thriftPeer = snd np in
      if state (peerSpec thriftPeer) \<noteq> IDLE then
        (case syncScan L E areaId limit rest numThriftPeersInSync timeout of
           Inl e \<Rightarrow> Inl e
         | Inr (peers, es, n, t) \<Rightarrow> Inr (np # peers, es, n, t))
      else if \<not> canTryNow E peerName then
        (case syncScan L E areaId limit rest numThriftPeersInSync
                (min timeout (timeRemainingUntilRetry E peerName)) of
           Inl e \<Rightarrow> Inl e
         | Inr (peers, es, n, t) \<Rightarrow> Inr (np # peers, es, n, t))
      else if \<not> client thriftPeer \<and> \<not> createThriftClient E peerName then
        (case syncScan L E areaId limit rest numThriftPeersInSync
                (min timeout (timeRemainingUntilRetry E peerName)) of
           Inl e \<Rightarrow> Inl e
         | Inr (peers, es, n, t) \<Rightarrow>
            Inr (np # peers,
                 [AddStatValue ''kvstore.thrift.num_client_connection_failure'' 1,
                  CancelTimeout (''keepAliveTimer.'' @ peerName)] @ es, n, t))
      else
        (case getNextState (Some (state (peerSpec thriftPeer))) PEER_ADD of
           Inl e \<Rightarrow> Inl e
         | Inr newState \<Rightarrow>
            (let synced = (peerName, thriftPeer\<lparr> client := True,
                             peerSpec := (peerSpec thriftPeer)\<lparr> state := newState \<rparr> \<rparr>);
                 sent = [AddStatValue ''kvstore.thrift.num_full_sync'' 1,
                         GetKvStoreKeyValsFilteredArea peerName areaId]
             in
             if numThriftPeersInSync + 1 > limit
             then Inr (synced # rest, sent, numThriftPeersInSync + 1, kMaxBackoff L)
             else
               (case syncScan L E areaId limit rest (numThriftPeersInSync + 1) timeout of
                  Inl e \<Rightarrow> Inl e
                | Inr (peers, es, n, t) \<Rightarrow> Inr (synced # peers, sent @ es, n, t)))))"

definition requestThriftPeerSync :: "Lib \<Rightarrow> Env \<Rightarrow> KvStoreDb \<Rightarrow> error + KvStoreDb" where
  "requestThriftPeerSync L E db =
    (case syncScan L E (dbArea db) (parallelSyncLimitOverThrift db) (thriftPeers db)
            (length (getPeersByState db SYNCING)) (kMaxBackoff L) of
       Inl e \<Rightarrow> Inl e
     | Inr (peers, es, numThriftPeersInSync, timeout) \<Rightarrow>
        (let db1 = addEffects (db\<lparr> thriftPeers := peers \<rparr>) es in
         if getPeersByState db1 IDLE \<noteq> [] \<or>
            numThriftPeersInSync > parallelSyncLimitOverThrift db
         then Inr (addEffects db1 [ScheduleTimeout ''thriftSyncTimer'' timeout])
         else Inr db1))"

subsection \<open>The store of all areas: \<open>KvStore\<close>\<close>

text \<open>Of the initialization events, the store publishes this one.\<close>

datatype InitializationEvent = KVSTORE_SYNCED

text \<open>
  \<open>kvStoreDb_\<close>, \<open>initialSyncSignalSent_\<close>, and the initialization events pushed to
  \<open>kvStoreUpdatesQueue\<close>, oldest first.
\<close>

record KvStore =
  kvStoreDb :: "(string \<times> KvStoreDb) list"
  initialSyncSignalSent :: bool
  initializationEvents :: "InitializationEvent list"

text \<open>\<open>KvStore::initialKvStoreDbSynced\<close>, the callback of every area.\<close>

definition initialKvStoreDbSynced :: "KvStore \<Rightarrow> KvStore" where
  "initialKvStoreDbSynced s =
    (if \<not> list_all (\<lambda>adb. initialSyncCompleted (snd adb)) (kvStoreDb s) then s
     else if \<not> initialSyncSignalSent s then
       s\<lparr> initializationEvents := initializationEvents s @ [KVSTORE_SYNCED],
          initialSyncSignalSent := True \<rparr>
     else s)"

text \<open>
  A handler of one area's database runs, the database is put back, and the callback runs
  if the handler called it.
\<close>

definition putDb :: "KvStore \<Rightarrow> string \<Rightarrow> KvStoreDb \<Rightarrow> KvStore" where
  "putDb s areaId db =
    s\<lparr> kvStoreDb := map (\<lambda>adb. if fst adb = areaId then (areaId, db) else adb) (kvStoreDb s) \<rparr>"

definition afterHandler :: "KvStore \<Rightarrow> string \<Rightarrow> KvStoreDb \<times> bool \<Rightarrow> KvStore" where
  "afterHandler s areaId r =
    (if snd r then initialKvStoreDbSynced (putDb s areaId (fst r)) else putDb s areaId (fst r))"

text \<open>
  The area a request is served by: the key under which \<open>getAreaDbOrThrow\<close> finds the
  database it returns.
\<close>

definition servingArea :: "(string \<times> 'db) list \<Rightarrow> string \<Rightarrow> string" where
  "servingArea dbs areaId =
    (case map_of dbs areaId of
       Some _ \<Rightarrow> areaId
     | None \<Rightarrow> (case dbs of [] \<Rightarrow> areaId | sole # _ \<Rightarrow> fst sole))"

text \<open>
  \<open>KvStore::processPeerUpdates\<close>. The peers of each area of the event are added and
  deleted through the handlers \<open>semifuture_addUpdateKvStorePeers\<close> and
  \<open>semifuture_deleteKvStorePeers\<close>; a \<open>KvStoreError\<close> of theirs ends the whole
  function (its caller logs it). Then, while the signal has not been sent, every area
  without peers processes the initialization event.
\<close>

definition addUpdateKvStorePeers ::
  "Env \<Rightarrow> KvStore \<Rightarrow> string \<Rightarrow> (string \<times> PeerSpec) list \<Rightarrow> error + KvStore" where
  "addUpdateKvStorePeers E s areaId peersToAdd =
    (case getAreaDbOrThrow (kvStoreDb s) areaId of
       Inl e \<Rightarrow> Inl e
     | Inr db \<Rightarrow>
        if peersToAdd = [] then Inl (KvStoreError ''Empty peerNames from peer-add request, ignoring'')
        else Inr (putDb s (servingArea (kvStoreDb s) areaId)
                    (addThriftPeers E (addEffects db [AddStatValue ''kvstore.cmd_peer_add'' 1])
                       peersToAdd)))"

definition deleteKvStorePeers :: "KvStore \<Rightarrow> string \<Rightarrow> string list \<Rightarrow> error + KvStore" where
  "deleteKvStorePeers s areaId peersToDel =
    (case getAreaDbOrThrow (kvStoreDb s) areaId of
       Inl e \<Rightarrow> Inl e
     | Inr db \<Rightarrow>
        if peersToDel = [] then Inl (KvStoreError ''Empty peerNames from peer-del request, ignoring'')
        else Inr (putDb s (servingArea (kvStoreDb s) areaId)
                    (delThriftPeers (addEffects db [AddStatValue ''kvstore.cmd_per_del'' 1])
                       peersToDel)))"

type_synonym AreaPeerEvent = "string \<times> (string \<times> PeerSpec) list \<times> string list"

definition initializeAreaWithoutPeers :: "KvStore \<Rightarrow> string \<Rightarrow> KvStore" where
  "initializeAreaWithoutPeers s areaId =
    (case map_of (kvStoreDb s) areaId of
       None \<Rightarrow> s
     | Some db \<Rightarrow>
        if length (thriftPeers db) \<noteq> 0 then s
        else afterHandler s areaId (processInitializationEvent db))"

text \<open>
  The result is the store and, when the function was ended by a \<open>KvStoreError\<close>, the
  error its caller logs. The store then is as the handlers before the error left it.
\<close>

fun areaPeerUpdatesUntilError ::
  "Env \<Rightarrow> KvStore \<Rightarrow> AreaPeerEvent list \<Rightarrow> KvStore \<times> error option" where
  "areaPeerUpdatesUntilError E s [] = (s, None)"
| "areaPeerUpdatesUntilError E s (ev # evs) =
     (let areaId = fst ev; peersToAdd = fst (snd ev); peersToDel = snd (snd ev) in
      case (if peersToAdd \<noteq> [] then addUpdateKvStorePeers E s areaId peersToAdd else Inr s) of
        Inl e \<Rightarrow> (s, Some e)
      | Inr s1 \<Rightarrow>
         (case (if peersToDel \<noteq> [] then deleteKvStorePeers s1 areaId peersToDel else Inr s1) of
            Inl e \<Rightarrow> (s1, Some e)
          | Inr s2 \<Rightarrow> areaPeerUpdatesUntilError E s2 evs))"

definition processPeerUpdates :: "Env \<Rightarrow> KvStore \<Rightarrow> AreaPeerEvent list \<Rightarrow> KvStore \<times> error option" where
  "processPeerUpdates E s event =
    (case areaPeerUpdatesUntilError E s event of
       (s1, Some e) \<Rightarrow> (s1, Some e)
     | (s1, None) \<Rightarrow>
        if \<not> initialSyncSignalSent s1
        then (foldl initializeAreaWithoutPeers s1 (map fst (kvStoreDb s1)), None)
        else (s1, None))"

text \<open>
  What happens to the store, one event at a time: the callback of a full-sync response or
  of a failed request in an area, a peer update, the sync timer of an area, or any other
  handler of an area's database (none of them assigns \<open>initialSyncCompleted_\<close>, which
  only \<open>processInitializationEvent\<close> does).
\<close>

datatype Event =
    ThriftSuccess string string Publication int
  | ThriftFailure string string
  | PeerUpdates "AreaPeerEvent list"
  | ThriftSyncTimer string
  | OtherHandler string "KvStoreDb \<Rightarrow> KvStoreDb"

fun step :: "Lib \<Rightarrow> KvStoreParams \<Rightarrow> Env \<Rightarrow> KvStore \<Rightarrow> Event \<Rightarrow> error + KvStore" where
  "step L P E s (ThriftSuccess areaId peerName pub timeDelta) =
     (case map_of (kvStoreDb s) areaId of
        None \<Rightarrow> Inr s
      | Some db \<Rightarrow>
         (case processThriftSuccess L P E db peerName pub timeDelta of
            Inl e \<Rightarrow> Inl e
          | Inr r \<Rightarrow> Inr (afterHandler s areaId r)))"
| "step L P E s (ThriftFailure areaId peerName) =
     (case map_of (kvStoreDb s) areaId of
        None \<Rightarrow> Inr s
      | Some db \<Rightarrow>
         (case processThriftFailure E db peerName of
            Inl e \<Rightarrow> Inl e
          | Inr r \<Rightarrow> Inr (afterHandler s areaId r)))"
| "step L P E s (PeerUpdates event) = Inr (fst (processPeerUpdates E s event))"
| "step L P E s (ThriftSyncTimer areaId) =
     (case map_of (kvStoreDb s) areaId of
        None \<Rightarrow> Inr s
      | Some db \<Rightarrow>
         (case requestThriftPeerSync L E db of
            Inl e \<Rightarrow> Inl e
          | Inr db' \<Rightarrow> Inr (putDb s areaId db')))"
| "step L P E s (OtherHandler areaId f) =
     (case map_of (kvStoreDb s) areaId of
        None \<Rightarrow> Inr s
      | Some db \<Rightarrow>
         Inr (putDb s areaId ((f db)\<lparr> initialSyncCompleted := initialSyncCompleted db \<rparr>)))"

text \<open>A run: the events in order, each with the surroundings it meets; a failure ends it.\<close>

fun run :: "Lib \<Rightarrow> KvStoreParams \<Rightarrow> KvStore \<Rightarrow> (Env \<times> Event) list \<Rightarrow> error + KvStore" where
  "run L P s [] = Inr s"
| "run L P s (ev # evs) =
     (case step L P (fst ev) s (snd ev) of
        Inl e \<Rightarrow> Inl e
      | Inr s1 \<Rightarrow> run L P s1 evs)"

text \<open>
  The store when the process starts: at least one area, no two under the same id, no area
  synchronized, nothing published.
\<close>

definition initialStore :: "KvStore \<Rightarrow> bool" where
  "initialStore s =
    (kvStoreDb s \<noteq> [] \<and> distinct (map fst (kvStoreDb s)) \<and>
     list_all (\<lambda>adb. \<not> initialSyncCompleted (snd adb)) (kvStoreDb s) \<and>
     \<not> initialSyncSignalSent s \<and> initializationEvents s = [])"

definition allAreasSynced :: "KvStore \<Rightarrow> bool" where
  "allAreasSynced s = list_all (\<lambda>adb. initialSyncCompleted (snd adb)) (kvStoreDb s)"

text \<open>A peer with which the initial synchronization is over, one way or the other.\<close>

definition peerDone :: "KvStorePeer \<Rightarrow> bool" where
  "peerDone p = (state (peerSpec p) = INITIALIZED \<or> numThriftApiErrors p > 0)"

text \<open>
  What holds of the store between any two events: the signal has been sent exactly if
  every area is synchronized, and the events published are that one event or none.
\<close>

definition barrier :: "KvStore \<Rightarrow> bool" where
  "barrier s =
    (kvStoreDb s \<noteq> [] \<and> distinct (map fst (kvStoreDb s)) \<and>
     initialSyncSignalSent s = allAreasSynced s \<and>
     initializationEvents s = (if initialSyncSignalSent s then [KVSTORE_SYNCED] else []))"

text \<open>
  A store with one area, and a run of it: a peer is added to the area, and two requests
  to that peer fail in turn.
\<close>

definition store1 :: KvStore where
  "store1 = \<lparr> kvStoreDb = [(''1'', db0)], initialSyncSignalSent = False,
              initializationEvents = [] \<rparr>"

definition peerSpecB :: PeerSpec where
  "peerSpecB = \<lparr> peerAddr = ''fe80::1'', ctrlPort = 2018, supportFloodOptimization = False,
                 state = IDLE \<rparr>"

definition events1 :: "(Env \<times> Event) list" where
  "events1 = [(env0, PeerUpdates [(''1'', [(''B'', peerSpecB)], [])]),
              (env0, ThriftFailure ''1'' ''B''),
              (env0, ThriftFailure ''1'' ''B'')]"

definition store1_after :: KvStore where
  "store1_after =
    \<lparr> kvStoreDb =
        [(''1'', db0\<lparr> thriftPeers :=
                        [(''B'', \<lparr> peerSpec = peerSpecB, client = False,
                                   numThriftApiErrors = 2,
                                   pendingKeysDuringInitialization = [] \<rparr>)],
                      initialSyncCompleted := True,
                      effects := [AddStatValue ''kvstore.cmd_peer_add'' 1,
                                  ScheduleTimeout ''thriftSyncTimer'' 0,
                                  CancelTimeout ''keepAliveTimer.B'',
                                  ScheduleTimeout ''thriftSyncTimer'' 0,
                                  CancelTimeout ''keepAliveTimer.B'',
                                  ScheduleTimeout ''thriftSyncTimer'' 0] \<rparr>)],
      initialSyncSignalSent = True,
      initializationEvents = [KVSTORE_SYNCED] \<rparr>"

subsection \<open>The handlers of the store and the area they serve\<close>









text \<open>
  A second run of the store with one area: two peers are added, the sync timer sends both
  the full-sync request, the response of the first arrives, and the second peer is
  deleted before its request is answered. Then the answer of the deleted peer arrives,
  another peer event without peers, and the sync timer again. The stores of the peers are
  empty, and so are their responses.
\<close>

definition events_bc :: "(Env \<times> Event) list" where
  "events_bc =
    [(env0, PeerUpdates [(''1'', [(''B'', peerSpecB),
                                  (''C'', peerSpecB\<lparr> peerAddr := ''fe80::2'' \<rparr>)], [])]),
     (env0, ThriftSyncTimer ''1''),
     (env0, ThriftSuccess ''1'' ''B''
              (emptyPublication\<lparr> area := ''1'', tobeUpdatedKeys := Some [] \<rparr>) 5),
     (env0, PeerUpdates [(''1'', [], [''C''])]),
     (env0, ThriftSuccess ''1'' ''C''
              (emptyPublication\<lparr> area := ''1'', tobeUpdatedKeys := Some [] \<rparr>) 9),
     (env0, PeerUpdates []),
     (env0, ThriftSyncTimer ''1'')]"

definition store_bc_after :: KvStore where
  "store_bc_after =
    \<lparr> kvStoreDb =
        [(''1'', db0\<lparr> thriftPeers :=
                        [(''B'', \<lparr> peerSpec = peerSpecB\<lparr> state := INITIALIZED \<rparr>,
                                   client = True, numThriftApiErrors = 0,
                                   pendingKeysDuringInitialization = [] \<rparr>)],
                      parallelSyncLimitOverThrift := 4,
                      effects :=
                        [AddStatValue ''kvstore.cmd_peer_add'' 1,
                         ScheduleTimeout ''thriftSyncTimer'' 0,
                         AddStatValue ''kvstore.thrift.num_full_sync'' 1,
                         GetKvStoreKeyValsFilteredArea ''B'' ''1'',
                         AddStatValue ''kvstore.thrift.num_full_sync'' 1,
                         GetKvStoreKeyValsFilteredArea ''C'' ''1'',
                         AddStatValue ''kvstore.received_publications'' 1,
                         AddStatValue ''kvstore.received_publications.1'' 1,
                         AddStatValue ''kvstore.received_key_vals'' 0,
                         AddStatValue ''kvstore.received_key_vals.1'' 0,
                         AddStatValue ''kvstore.thrift.num_full_sync_success'' 1,
                         AddStatValue ''kvstore.thrift.full_sync_duration_ms'' 5,
                         AddStatValue ''kvstore.thrift.num_missing_keys'' 0,
                         AddStatValue ''kvstore.thrift.num_keyvals_update'' 0,
                         EventsQueuePush ''B'' ''1'',
                         CancelTimeout ''thriftSyncTimer'',
                         AddStatValue ''kvstore.cmd_per_del'' 1] \<rparr>)],
      initialSyncSignalSent = False,
      initializationEvents = [] \<rparr>"

section \<open>Theorems\<close>

lemma siftUp_0 [simp]: "siftUp q 0 = q"
  by (simp add: siftUp.simps)

lemma pushHeap_Nil [simp]: "pushHeap [] queueEntry = [queueEntry]"
  by (simp add: pushHeap_def)

lemma stateMap_in_range:
  "state_index s < length stateMap \<and> event_index e < length (stateMap ! state_index s)"
  by (cases s; cases e) (simp_all add: stateMap_def)

text \<open>
  C7. The transition function of the peer state machine is the specified table: the six
  defined cells give the listed next state, every other cell, and an absent current
  state, is a fatal check failure.
\<close>

theorem getNextState_is_spec_table:
  "getNextState (Some s) e =
     (case spec_transition s e of Some s' \<Rightarrow> Inr s' | None \<Rightarrow> Inl CheckFailed)
   \<and> getNextState None e = Inl CheckFailed"
  by (cases s; cases e) (simp_all add: getNextState_def stateMap_def)


subsection \<open>Properties of the merge\<close>

lemma std_compare_pos: "std_compare cmp \<Longrightarrow> (cmp a b > 0) = (a > b)"
  unfolding std_compare_def by (metis less_linear not_less_iff_gr_or_eq)

lemma sign_compare_std: "std_compare sign_compare"
  by (auto simp: std_compare_def sign_compare_def)

lemma lib0_std: "std_compare (str_compare lib0)"
  by (simp add: lib0_def sign_compare_std)

lemma fillHash_fields [simp]:
  "version (fillHash L v) = version v"
  "originatorId (fillHash L v) = originatorId v"
  "val (fillHash L v) = val v"
  "ttl (fillHash L v) = ttl v"
  "ttlVersion (fillHash L v) = ttlVersion v"
  by (simp_all add: fillHash_def split: option.splits)

lemma tuple_greater_trans: "tuple_greater a b \<Longrightarrow> tuple_greater b c \<Longrightarrow> tuple_greater a c"
  unfolding tuple_greater_def by (metis less_trans)

lemma tuple_greater_asym: "tuple_greater a b \<Longrightarrow> \<not> tuple_greater b a"
  unfolding tuple_greater_def by (metis less_asym less_irrefl)

lemma not_older_refl: "not_older c c"
  by (simp add: not_older_def tuple_equal_def)

lemma not_older_trans: "not_older a b \<Longrightarrow> not_older b c \<Longrightarrow> not_older a c"
  unfolding not_older_def tuple_equal_def
  by (smt (verit) tuple_greater_trans tuple_greater_def order_trans)

text \<open>An iteration of the loop touches no key but its own.\<close>

lemma mergeKeyValue_other_key:
  "mergeKeyValue L f st (k, v) = Inr st' \<Longrightarrow> k' \<noteq> k \<Longrightarrow> kvStore st' k' = kvStore st k'"
  by (auto simp: mergeKeyValue_def Let_def
      split: if_splits sum.splits option.splits prod.splits)

text \<open>
  Every accept is an advance: the record under the key stays, and what stands there
  afterwards is greater in the tuple order, or equal in it with a \<open>ttlVersion\<close> that is
  not smaller.
\<close>

lemma mergeKeyValue_not_older:
  assumes "std_compare (str_compare L)"
    and "mergeKeyValue L f st (k, v) = Inr st'"
    and "kvStore st k = Some cur"
  shows "\<exists>new. kvStore st' k = Some new \<and> not_older cur new"
  using assms
  by (auto simp: mergeKeyValue_def Let_def checkUpdateAll_def checkUpdateTtl_def
        not_older_def tuple_equal_def tuple_greater_def std_compare_pos
      split: if_splits sum.splits option.splits prod.splits)

lemma mergeKeyValue_step_not_older:
  assumes "std_compare (str_compare L)"
    and "mergeKeyValue L f st kv = Inr st'"
    and "kvStore st k = Some cur"
  shows "\<exists>new. kvStore st' k = Some new \<and> not_older cur new"
proof (cases "fst kv = k")
  case True
  with assms mergeKeyValue_not_older [of L f st k "snd kv" st' cur] show ?thesis
    by (cases kv) simp
next
  case False
  with assms mergeKeyValue_other_key [of L f st "fst kv" "snd kv" st' k]
  show ?thesis by (cases kv) (auto intro: not_older_refl)
qed

lemma mergeLoop_not_older:
  assumes "std_compare (str_compare L)"
  shows "mergeLoop L f st kvs = Inr st' \<Longrightarrow> kvStore st k = Some cur \<Longrightarrow>
         \<exists>new. kvStore st' k = Some new \<and> not_older cur new"
proof (induction kvs arbitrary: st cur)
  case Nil
  then show ?case by (auto intro: not_older_refl)
next
  case (Cons kv kvs)
  from Cons.prems(1) obtain st1 where
    step: "mergeKeyValue L f st kv = Inr st1" and rest: "mergeLoop L f st1 kvs = Inr st'"
    by (auto split: sum.splits)
  from mergeKeyValue_step_not_older [OF assms step Cons.prems(2)] obtain mid where
    mid: "kvStore st1 k = Some mid" "not_older cur mid" by blast
  from Cons.IH [OF rest mid(1)] obtain new where
    "kvStore st' k = Some new" "not_older mid new" by blast
  with mid(2) show ?case by (auto intro: not_older_trans)
qed

lemma mergeKeyValues_not_older:
  assumes "std_compare (str_compare L)"
    and "mergeKeyValues L store kvs f = Inr (store', upd)"
    and "store k = Some cur"
  shows "\<exists>new. store' k = Some new \<and> not_older cur new"
proof -
  let ?st0 = "\<lparr> kvStore = store, kvUpdates = [], ttlUpdateCnt = 0, valUpdateCnt = 0 \<rparr>"
  from assms(2) obtain st where run: "mergeLoop L f ?st0 kvs = Inr st"
    and st: "store' = kvStore st"
    by (auto simp: mergeKeyValues_def split: sum.splits)
  from mergeLoop_not_older [OF assms(1) run, of k cur] assms(3) st show ?thesis by simp
qed

lemma mergeSequence_not_older:
  assumes "std_compare (str_compare L)"
  shows "mergeSequence L f store pubs = Inr store' \<Longrightarrow> store k = Some cur \<Longrightarrow>
         \<exists>new. store' k = Some new \<and> not_older cur new"
proof (induction pubs arbitrary: store cur)
  case Nil
  then show ?case by (auto intro: not_older_refl)
next
  case (Cons p ps)
  from Cons.prems(1) obtain store1 upd where
    first: "mergeKeyValues L store p f = Inr (store1, upd)"
    and rest: "mergeSequence L f store1 ps = Inr store'"
    by (auto split: sum.splits prod.splits)
  from mergeKeyValues_not_older [OF assms first Cons.prems(2)] obtain mid where
    mid: "store1 k = Some mid" "not_older cur mid" by blast
  from Cons.IH [OF rest mid(1)] obtain new where
    "store' k = Some new" "not_older mid new" by blast
  with mid(2) show ?case by (auto intro: not_older_trans)
qed

lemma checkUpdateAll_present:
  assumes "std_compare (str_compare L)"
    and "val value = Some v" and "val cur = Some cv"
    and "version cur \<le> version value"
  shows "checkUpdateAll L (Some cur) value (version cur) (version value) =
           Inr (tuple_greater value cur,
                tuple_equal value cur \<and> ttlVersion cur < ttlVersion value)"
proof -
  have pos: "(0 < str_compare L v cv) = (cv < v)"
    using assms(1) by (simp add: std_compare_pos)
  have zero: "(str_compare L v cv = 0) = (v = cv)"
    using assms(1) by (simp add: std_compare_def)
  show ?thesis
    using assms(2-4) pos zero
    by (auto simp: checkUpdateAll_def tuple_greater_def tuple_equal_def Let_def)
qed

lemma older_version_not_greater: "version value < version cur \<Longrightarrow> \<not> tuple_greater value cur"
  by (auto simp: tuple_greater_def)

lemma checkUpdateTtl_present: "val value = Some v \<Longrightarrow> checkUpdateTtl it value = False"
  by (simp add: checkUpdateTtl_def split: option.splits)

lemma tuple_greater_not_equal: "tuple_greater a b \<Longrightarrow> \<not> tuple_equal a b"
  by (auto simp: tuple_greater_def tuple_equal_def)

lemma mergeKeyValue_present:
  assumes "std_compare (str_compare L)"
    and "kvStore st key = Some cur"
    and "case flt of None \<Rightarrow> True | Some keyMatch \<Rightarrow> keyMatch key value"
    and "ttl value = kTtlInfinity L \<or> 0 < ttl value"
    and "val value = Some v" and "val cur = Some cv"
  shows "mergeKeyValue L flt st (key, value) =
          Inr (if tuple_greater value cur
               then st\<lparr> kvStore := (kvStore st)(key \<mapsto> fillHash L value),
                        kvUpdates := emplace (kvUpdates st) key value,
                        valUpdateCnt := valUpdateCnt st + 1 \<rparr>
               else if tuple_equal value cur \<and> ttlVersion cur < ttlVersion value
               then st\<lparr> kvStore := (kvStore st)(key \<mapsto>
                                cur\<lparr>ttl := ttl value, ttlVersion := ttlVersion value\<rparr>),
                        kvUpdates := emplace (kvUpdates st) key value,
                        ttlUpdateCnt := ttlUpdateCnt st + 1 \<rparr>
               else st)"
proof -
  have pass: "(case flt of None \<Rightarrow> False | Some keyMatch \<Rightarrow> \<not> keyMatch key value) = False"
    using assms(3) by (auto split: option.splits)
  have ttl_ok: "(ttl value \<noteq> kTtlInfinity L \<and> ttl value \<le> 0) = False"
    using assms(4) by auto
  show ?thesis
  proof (cases "version value < version cur")
    case True
    then have "\<not> tuple_greater value cur" "\<not> tuple_equal value cur"
      by (auto simp: tuple_greater_def tuple_equal_def)
    with True show ?thesis
      by (simp add: mergeKeyValue_def Let_def pass ttl_ok assms(2))
  next
    case False
    then have le: "version cur \<le> version value" by simp
    note cu = checkUpdateAll_present [OF assms(1) assms(5) assms(6) le]
    show ?thesis
      using False tuple_greater_not_equal [of "value" cur]
      by (simp add: mergeKeyValue_def Let_def pass ttl_ok assms(2) cu
            checkUpdateTtl_present [OF assms(5)] assms(5))
  qed
qed


lemma mergeKeyValue_absent:
  assumes "kvStore st key = Some cur"
    and "case flt of None \<Rightarrow> True | Some keyMatch \<Rightarrow> keyMatch key value"
    and "ttl value = kTtlInfinity L \<or> 0 < ttl value"
    and "val value = None"
  shows "mergeKeyValue L flt st (key, value) =
          Inr (if version value = version cur \<and> originatorId value = originatorId cur \<and>
                  ttlVersion cur < ttlVersion value
               then st\<lparr> kvStore := (kvStore st)(key \<mapsto>
                                cur\<lparr>ttl := ttl value, ttlVersion := ttlVersion value\<rparr>),
                        kvUpdates := emplace (kvUpdates st) key value,
                        ttlUpdateCnt := ttlUpdateCnt st + 1 \<rparr>
               else st)"
proof -
  have pass: "(case flt of None \<Rightarrow> False | Some keyMatch \<Rightarrow> \<not> keyMatch key value) = False"
    using assms(2) by (auto split: option.splits)
  have ttl_ok: "(ttl value \<noteq> kTtlInfinity L \<and> ttl value \<le> 0) = False"
    using assms(3) by auto
  show ?thesis
    by (auto simp: mergeKeyValue_def Let_def pass ttl_ok assms(1) assms(4) checkUpdateAll_def
          checkUpdateTtl_def)
qed

lemma mergeKeyValue_skipped:
  assumes "(case flt of None \<Rightarrow> False | Some keyMatch \<Rightarrow> \<not> keyMatch key value) \<or>
           (ttl value \<noteq> kTtlInfinity L \<and> ttl value \<le> 0)"
  shows "mergeKeyValue L flt st (key, value) = Inr st"
  using assms by (auto simp: mergeKeyValue_def Let_def)

text \<open>Every record the merge stores has a payload.\<close>

lemma mergeKeyValue_payloads_present:
  assumes "payloads_present (kvStore st)" and "mergeKeyValue L flt st kv = Inr st'"
  shows "payloads_present (kvStore st')"
proof -
  obtain key inc where kv: "kv = (key, inc)" by (cases kv)
  let ?it = "kvStore st key"
  let ?r = "checkUpdateAll L ?it inc (case ?it of None \<Rightarrow> 0 | Some cur \<Rightarrow> version cur)
              (version inc)"
  from assms(2) have cases:
    "st' = st \<or>
     (val inc \<noteq> None \<and> kvStore st' = (kvStore st)(key \<mapsto> fillHash L inc)) \<or>
     (\<exists>cur. ?it = Some cur \<and>
        kvStore st' = (kvStore st)(key \<mapsto> cur\<lparr>ttl := ttl inc, ttlVersion := ttlVersion inc\<rparr>))"
  proof (cases ?r)
    case (Inl e)
    with assms(2) show ?thesis
      by (auto simp: kv mergeKeyValue_def Let_def split: if_splits)
  next
    case (Inr r)
    with assms(2) show ?thesis
      by (cases r) (auto simp: kv mergeKeyValue_def Let_def split: if_splits option.splits)
  qed
  then show ?thesis
  proof (elim disjE conjE exE)
    assume "st' = st"
    with assms(1) show ?thesis by simp
  next
    assume "val inc \<noteq> None" "kvStore st' = (kvStore st)(key \<mapsto> fillHash L inc)"
    with assms(1) show ?thesis by (auto simp: payloads_present_def)
  next
    fix cur
    assume "?it = Some cur"
      "kvStore st' = (kvStore st)(key \<mapsto> cur\<lparr>ttl := ttl inc, ttlVersion := ttlVersion inc\<rparr>)"
    with assms(1) show ?thesis by (auto simp: payloads_present_def)
  qed
qed

lemma mergeLoop_payloads_present:
  "payloads_present (kvStore st) \<Longrightarrow> mergeLoop L flt st kvs = Inr st' \<Longrightarrow>
   payloads_present (kvStore st')"
proof (induction kvs arbitrary: st)
  case Nil
  then show ?case by simp
next
  case (Cons kv kvs)
  from Cons.prems(2) obtain st1 where
    step: "mergeKeyValue L flt st kv = Inr st1" and rest: "mergeLoop L flt st1 kvs = Inr st'"
    by (auto split: sum.splits)
  from Cons.IH [OF mergeKeyValue_payloads_present [OF Cons.prems(1) step] rest]
  show ?case .
qed

lemma mergeKeyValues_payloads_present:
  assumes "payloads_present store" and "mergeKeyValues L store kvs flt = Inr (store', upd)"
  shows "payloads_present store'"
proof -
  let ?st0 = "\<lparr> kvStore = store, kvUpdates = [], ttlUpdateCnt = 0, valUpdateCnt = 0 \<rparr>"
  from assms(2) obtain st where run: "mergeLoop L flt ?st0 kvs = Inr st"
    and st: "store' = kvStore st"
    by (auto simp: mergeKeyValues_def split: sum.splits)
  from mergeLoop_payloads_present [OF _ run] assms(1) st show ?thesis by simp
qed

lemma mergeSequence_payloads_present:
  "payloads_present store \<Longrightarrow> mergeSequence L flt store pubs = Inr store' \<Longrightarrow>
   payloads_present store'"
proof (induction pubs arbitrary: store)
  case Nil
  then show ?case by simp
next
  case (Cons p ps)
  from Cons.prems(2) obtain store1 upd where
    first: "mergeKeyValues L store p flt = Inr (store1, upd)"
    and rest: "mergeSequence L flt store1 ps = Inr store'"
    by (auto split: sum.splits prod.splits)
  from Cons.IH [OF mergeKeyValues_payloads_present [OF Cons.prems(1) first] rest]
  show ?case .
qed

lemma payloads_present_empty: "payloads_present Map.empty"
  by (simp add: payloads_present_def)

text \<open>
  C1 (as amended). Every record of a store that merges have filled carries a payload.
  Against such a record an incoming value that fails the filter or has an invalid ttl
  changes nothing; otherwise it replaces the record wholesale exactly when it carries a
  payload and is strictly greater in the tuple order. An incoming value without a payload
  is never stored, whatever its version: like a value equal to the record in version,
  originator and payload it refreshes the ttl and ttlVersion of the record, and only when
  version and originator agree and its ttlVersion is greater. In every other case nothing
  changes. And for every incoming value whatsoever, what stands under the key after the
  merge is never strictly less than what stood there before.
\<close>

theorem mergeKeyValue_replaces_iff_greater:
  assumes "std_compare (str_compare L)"
    and "kvStore st key = Some cur"
  shows "(val cur \<noteq> None \<longrightarrow>
          mergeKeyValue L flt st (key, inc) =
            Inr (if (case flt of None \<Rightarrow> False | Some keyMatch \<Rightarrow> \<not> keyMatch key inc) \<or>
                    (ttl inc \<noteq> kTtlInfinity L \<and> ttl inc \<le> 0)
                 then st
                 else if val inc \<noteq> None \<and> tuple_greater inc cur
                 then st\<lparr> kvStore := (kvStore st)(key \<mapsto> fillHash L inc),
                          kvUpdates := emplace (kvUpdates st) key inc,
                          valUpdateCnt := valUpdateCnt st + 1 \<rparr>
                 else if version inc = version cur \<and> originatorId inc = originatorId cur \<and>
                         (val inc = None \<or> val inc = val cur) \<and>
                         ttlVersion cur < ttlVersion inc
                 then st\<lparr> kvStore := (kvStore st)(key \<mapsto>
                                  cur\<lparr>ttl := ttl inc, ttlVersion := ttlVersion inc\<rparr>),
                          kvUpdates := emplace (kvUpdates st) key inc,
                          ttlUpdateCnt := ttlUpdateCnt st + 1 \<rparr>
                 else st))
       \<and> (\<forall>st'. mergeKeyValue L flt st (key, inc) = Inr st' \<longrightarrow>
             (\<exists>new. kvStore st' key = Some new \<and> \<not> tuple_greater cur new))
       \<and> (\<forall>store pubs store'.
             payloads_present store \<and> mergeSequence L flt store pubs = Inr store' \<longrightarrow>
             payloads_present store')"
proof (intro conjI impI allI)
  fix st'
  assume "mergeKeyValue L flt st (key, inc) = Inr st'"
  from mergeKeyValue_not_older [OF assms(1) this assms(2)]
  obtain new where n: "kvStore st' key = Some new" "not_older cur new" by blast
  have "\<not> tuple_greater cur new"
  proof
    assume g: "tuple_greater cur new"
    from n(2) show False
      unfolding not_older_def
    proof
      assume "tuple_greater new cur"
      with g tuple_greater_asym show False by blast
    next
      assume "tuple_equal new cur \<and> ttlVersion cur \<le> ttlVersion new"
      with g show False by (auto simp: tuple_equal_def tuple_greater_def)
    qed
  qed
  with n(1) show "\<exists>new. kvStore st' key = Some new \<and> \<not> tuple_greater cur new" by blast
next
  fix store pubs store'
  assume "payloads_present store \<and> mergeSequence L flt store pubs = Inr store'"
  then show "payloads_present store'"
    using mergeSequence_payloads_present by blast
next
  assume c: "val cur \<noteq> None"
  let ?skip = "(case flt of None \<Rightarrow> False | Some keyMatch \<Rightarrow> \<not> keyMatch key inc) \<or>
               (ttl inc \<noteq> kTtlInfinity L \<and> ttl inc \<le> 0)"
  show "mergeKeyValue L flt st (key, inc) =
            Inr (if ?skip
                 then st
                 else if val inc \<noteq> None \<and> tuple_greater inc cur
                 then st\<lparr> kvStore := (kvStore st)(key \<mapsto> fillHash L inc),
                          kvUpdates := emplace (kvUpdates st) key inc,
                          valUpdateCnt := valUpdateCnt st + 1 \<rparr>
                 else if version inc = version cur \<and> originatorId inc = originatorId cur \<and>
                         (val inc = None \<or> val inc = val cur) \<and>
                         ttlVersion cur < ttlVersion inc
                 then st\<lparr> kvStore := (kvStore st)(key \<mapsto>
                                  cur\<lparr>ttl := ttl inc, ttlVersion := ttlVersion inc\<rparr>),
                          kvUpdates := emplace (kvUpdates st) key inc,
                          ttlUpdateCnt := ttlUpdateCnt st + 1 \<rparr>
                 else st)"
  proof (cases ?skip)
    case True
    then show ?thesis using mergeKeyValue_skipped [OF True, of st] by simp
  next
    case False
    then have f: "case flt of None \<Rightarrow> True | Some keyMatch \<Rightarrow> keyMatch key inc"
      and t: "ttl inc = kTtlInfinity L \<or> 0 < ttl inc"
      by (auto split: option.splits)
    from c obtain cv where cv: "val cur = Some cv" by auto
    show ?thesis
    proof (cases "val inc")
      case None
      show ?thesis
        unfolding mergeKeyValue_absent [OF assms(2) f t None] if_not_P [OF False]
        using None by simp
    next
      case (Some v)
      show ?thesis
        unfolding mergeKeyValue_present [OF assms(1) assms(2) f t Some cv] if_not_P [OF False]
        using Some cv by (auto simp: tuple_equal_def)
    qed
  qed
qed

lemma rec_a1_y_greater: "tuple_greater rec_a1_y rec_a1"
  by (simp add: tuple_greater_def rec_a1_y_def rec_a1_def)

theorem mergeKeyValue_replaces_iff_greater_witness:
  "std_compare (str_compare lib0) \<and> kvStore state_a1 ''k'' = Some rec_a1 \<and>
   val rec_a1 \<noteq> None \<and> tuple_greater rec_a1_y rec_a1 \<and>
   mergeKeyValue lib0 None state_a1 (''k'', rec_a1_y) =
     Inr (state_a1\<lparr> kvStore := (kvStore state_a1)(''k'' \<mapsto> fillHash lib0 rec_a1_y),
                    kvUpdates := [(''k'', rec_a1_y)],
                    valUpdateCnt := 1 \<rparr>)"
proof -
  have s: "kvStore state_a1 ''k'' = Some rec_a1" by (simp add: state_a1_def)
  have c: "val rec_a1 \<noteq> None" by (simp add: rec_a1_def)
  have p: "\<not> ((case None :: KvStoreFilters option of None \<Rightarrow> False
               | Some keyMatch \<Rightarrow> \<not> keyMatch ''k'' rec_a1_y) \<or>
              (ttl rec_a1_y \<noteq> kTtlInfinity lib0 \<and> ttl rec_a1_y \<le> 0))"
    "val rec_a1_y \<noteq> None"
    by (simp_all add: rec_a1_y_def)
  from mergeKeyValue_replaces_iff_greater [OF lib0_std s, where flt = None and inc = rec_a1_y]
    c p rec_a1_y_greater
  have "mergeKeyValue lib0 None state_a1 (''k'', rec_a1_y) =
     Inr (state_a1\<lparr> kvStore := (kvStore state_a1)(''k'' \<mapsto> fillHash lib0 rec_a1_y),
                    kvUpdates := emplace (kvUpdates state_a1) ''k'' rec_a1_y,
                    valUpdateCnt := valUpdateCnt state_a1 + 1 \<rparr>)"
    by (simp add: rec_a1_y_def rec_a1_def lib0_def)
  then show ?thesis using lib0_std s c rec_a1_y_greater
    by (simp add: state_a1_def emplace_def)
qed

text \<open>
  C1, as stated, fails: a ttl refresh (no payload) of a greater version is strictly
  greater in the tuple order, and the merge leaves the stored record as it is.
\<close>

theorem ttl_refresh_greater_version_not_replaced:
  "kvStore state_a1 ''k'' = Some rec_a1 \<and> tuple_greater ttl_refresh_v2 rec_a1 \<and>
   mergeKeyValue lib0 None state_a1 (''k'', ttl_refresh_v2) = Inr state_a1"
  by (simp add: state_a1_def rec_a1_def ttl_refresh_v2_def tuple_greater_def lib0_def
        mergeKeyValue_def checkUpdateAll_def checkUpdateTtl_def Let_def)

lemma mergeKeyValue_unknown_key:
  assumes "kvStore st key = None"
    and "case flt of None \<Rightarrow> True | Some keyMatch \<Rightarrow> keyMatch key value"
    and "ttl value = kTtlInfinity L \<or> 0 < ttl value"
  shows "mergeKeyValue L flt st (key, value) =
          (if version value < 0 then Inr st
           else if val value = None then Inr st
           else if 0 < version value
           then Inr (st\<lparr> kvStore := (kvStore st)(key \<mapsto> fillHash L value),
                        kvUpdates := emplace (kvUpdates st) key value,
                        valUpdateCnt := valUpdateCnt st + 1 \<rparr>)
           else Inl EndIteratorDeref)"
proof -
  have pass: "(case flt of None \<Rightarrow> False | Some keyMatch \<Rightarrow> \<not> keyMatch key value) = False"
    using assms(2) by (auto split: option.splits)
  have ttl_ok: "(ttl value \<noteq> kTtlInfinity L \<and> ttl value \<le> 0) = False"
    using assms(3) by auto
  show ?thesis
    by (cases "val value")
       (auto simp: mergeKeyValue_def Let_def pass ttl_ok assms(1) checkUpdateAll_def
          checkUpdateTtl_def)
qed

text \<open>
  C2. For a key the store does not hold, an incoming value with a payload and version 0
  passes the version test (0 is not below the default 0), is not newer either, and the
  next branch reads the originator of the record behind the end iterator.
\<close>

theorem mergeKeyValues_version0_unknown_key:
  "mergeKeyValues L Map.empty [(''k'', rec_v0)] None = Inl EndIteratorDeref"
  by (simp add: mergeKeyValues_def mergeKeyValue_def checkUpdateAll_def rec_v0_def Let_def)

text \<open>The two kinds of accept, told apart by the counter that moves.\<close>

lemma ttl_update_raises:
  assumes "mergeKeyValue L flt st (k, inc) = Inr st' \<and> ttlUpdateCnt st' \<noteq> ttlUpdateCnt st"
  shows "\<exists>cur. kvStore st k = Some cur \<and>
           kvStore st' = (kvStore st)(k \<mapsto> cur\<lparr>ttl := ttl inc, ttlVersion := ttlVersion inc\<rparr>) \<and>
           version inc = version cur \<and> originatorId inc = originatorId cur \<and>
           ttlVersion cur < ttlVersion inc"
proof (cases "kvStore st k")
  case None
  with assms show ?thesis
    by (auto simp: mergeKeyValue_def Let_def checkUpdateAll_def checkUpdateTtl_def
        split: if_splits option.splits)
next
  case (Some cur)
  show ?thesis
  proof (cases "val inc")
    case None
    with Some assms show ?thesis
      by (auto simp: mergeKeyValue_def Let_def checkUpdateAll_def checkUpdateTtl_def
          split: if_splits)
  next
    case inc: (Some v)
    with Some assms show ?thesis
      by (auto simp: mergeKeyValue_def Let_def checkUpdateAll_def checkUpdateTtl_def
          split: if_splits option.splits)
  qed
qed

lemma value_update_installs:
  assumes "mergeKeyValue L flt st (k, inc) = Inr st' \<and> valUpdateCnt st' \<noteq> valUpdateCnt st"
  shows "kvStore st' = (kvStore st)(k \<mapsto> fillHash L inc)"
proof -
  from assms have m: "mergeKeyValue L flt st (k, inc) = Inr st'"
    and c: "valUpdateCnt st' \<noteq> valUpdateCnt st" by simp_all
  show ?thesis
  proof (cases "checkUpdateAll L (kvStore st k) inc
                  (case kvStore st k of None \<Rightarrow> 0 | Some cur \<Rightarrow> version cur) (version inc)")
    case (Inl e)
    with m c show ?thesis
      by (auto simp: mergeKeyValue_def Let_def split: if_splits)
  next
    case (Inr r)
    with m c show ?thesis
      by (cases r) (auto simp: mergeKeyValue_def Let_def split: if_splits option.splits)
  qed
qed

text \<open>
  C3 (as amended). Across any sequence of merges, a key that is held stays held, and if
  the record under it has the same version, originator and payload as before, its
  ttlVersion is not smaller than before. Of the single accepts, a ttl-update (one that
  \<open>ttlUpdateCnt\<close> counts) happens only to a record that is held, keeps its version,
  originator and payload and strictly raises its ttlVersion to the incoming one; a
  value-update (one that \<open>valUpdateCnt\<close> counts) installs the incoming record, its
  ttlVersion included, whatever was stored.
\<close>

theorem mergeSequence_ttlVersion_monotone:
  assumes "std_compare (str_compare L)"
  shows "(\<forall>store pubs store' k cur.
            mergeSequence L flt store pubs = Inr store' \<and> store k = Some cur \<longrightarrow>
            (\<exists>new. store' k = Some new \<and>
               (tuple_equal new cur \<longrightarrow> ttlVersion cur \<le> ttlVersion new))) \<and>
         (\<forall>st k inc st'.
            mergeKeyValue L flt st (k, inc) = Inr st' \<and> ttlUpdateCnt st' \<noteq> ttlUpdateCnt st \<longrightarrow>
            (\<exists>cur. kvStore st k = Some cur \<and>
               kvStore st' = (kvStore st)(k \<mapsto> cur\<lparr>ttl := ttl inc, ttlVersion := ttlVersion inc\<rparr>) \<and>
               version inc = version cur \<and> originatorId inc = originatorId cur \<and>
               ttlVersion cur < ttlVersion inc)) \<and>
         (\<forall>st k inc st'.
            mergeKeyValue L flt st (k, inc) = Inr st' \<and> valUpdateCnt st' \<noteq> valUpdateCnt st \<longrightarrow>
            kvStore st' = (kvStore st)(k \<mapsto> fillHash L inc) \<and>
            ttlVersion (fillHash L inc) = ttlVersion inc)"
proof (intro conjI allI impI)
  fix store pubs store' k cur
  assume a: "mergeSequence L flt store pubs = Inr store' \<and> store k = Some cur"
  from mergeSequence_not_older [OF assms, of flt store pubs store' k cur] a obtain new where
    n: "store' k = Some new" "not_older cur new" by blast
  have "tuple_equal new cur \<longrightarrow> ttlVersion cur \<le> ttlVersion new"
    using n(2) tuple_greater_not_equal [of new cur] by (auto simp: not_older_def)
  with n(1) show "\<exists>new. store' k = Some new \<and>
               (tuple_equal new cur \<longrightarrow> ttlVersion cur \<le> ttlVersion new)" by blast
next
  fix st k inc st'
  assume "mergeKeyValue L flt st (k, inc) = Inr st' \<and> ttlUpdateCnt st' \<noteq> ttlUpdateCnt st"
  then show "\<exists>cur. kvStore st k = Some cur \<and>
               kvStore st' = (kvStore st)(k \<mapsto> cur\<lparr>ttl := ttl inc, ttlVersion := ttlVersion inc\<rparr>) \<and>
               version inc = version cur \<and> originatorId inc = originatorId cur \<and>
               ttlVersion cur < ttlVersion inc"
    by (rule ttl_update_raises)
next
  fix st k inc st'
  assume "mergeKeyValue L flt st (k, inc) = Inr st' \<and> valUpdateCnt st' \<noteq> valUpdateCnt st"
  then show "kvStore st' = (kvStore st)(k \<mapsto> fillHash L inc)"
    by (rule value_update_installs)
next
  show "ttlVersion (fillHash L inc) = ttlVersion inc" for inc by simp
qed

theorem mergeSequence_ttlVersion_monotone_witness:
  "std_compare (str_compare lib0) \<and>
   mergeSequence lib0 None [''k'' \<mapsto> rec_a1] [[(''k'', ttl_refresh_6)]] =
     Inr [''k'' \<mapsto> rec_a1\<lparr>ttlVersion := 6\<rparr>] \<and>
   tuple_equal (rec_a1\<lparr>ttlVersion := 6\<rparr>) rec_a1 \<and>
   ttlVersion rec_a1 \<le> ttlVersion (rec_a1\<lparr>ttlVersion := 6\<rparr>) \<and>
   mergeKeyValue lib0 None state_a1 (''k'', ttl_refresh_6) =
     Inr (state_a1\<lparr> kvStore := [''k'' \<mapsto> rec_a1\<lparr>ttlVersion := 6\<rparr>],
                    kvUpdates := [(''k'', ttl_refresh_6)], ttlUpdateCnt := 1 \<rparr>) \<and>
   ttlVersion rec_a1 < ttlVersion ttl_refresh_6"
proof -
  have run: "mergeSequence lib0 None [''k'' \<mapsto> rec_a1] [[(''k'', ttl_refresh_6)]] =
     Inr [''k'' \<mapsto> rec_a1\<lparr>ttlVersion := 6\<rparr>]"
    by (simp add: mergeKeyValues_def mergeKeyValue_def checkUpdateAll_def checkUpdateTtl_def
          rec_a1_def ttl_refresh_6_def lib0_def emplace_def Let_def)
  have one: "mergeKeyValue lib0 None state_a1 (''k'', ttl_refresh_6) =
     Inr (state_a1\<lparr> kvStore := [''k'' \<mapsto> rec_a1\<lparr>ttlVersion := 6\<rparr>],
                    kvUpdates := [(''k'', ttl_refresh_6)], ttlUpdateCnt := 1 \<rparr>)"
    by (simp add: mergeKeyValue_def checkUpdateAll_def checkUpdateTtl_def state_a1_def
          rec_a1_def ttl_refresh_6_def lib0_def emplace_def Let_def)
  have eq: "tuple_equal (rec_a1\<lparr>ttlVersion := 6\<rparr>) rec_a1" by (simp add: tuple_equal_def)
  note seq = mergeSequence_ttlVersion_monotone [OF lib0_std, of None, THEN conjunct1, rule_format]
  note upd = mergeSequence_ttlVersion_monotone [OF lib0_std, of None, THEN conjunct2,
      THEN conjunct1, rule_format]
  from seq [of "[''k'' \<mapsto> rec_a1]" "[[(''k'', ttl_refresh_6)]]"
      "[''k'' \<mapsto> rec_a1\<lparr>ttlVersion := 6\<rparr>]" "''k''" rec_a1] run eq
  have le: "ttlVersion rec_a1 \<le> ttlVersion (rec_a1\<lparr>ttlVersion := 6\<rparr>)" by simp
  have cnt: "ttlUpdateCnt (state_a1\<lparr> kvStore := [''k'' \<mapsto> rec_a1\<lparr>ttlVersion := 6\<rparr>],
                    kvUpdates := [(''k'', ttl_refresh_6)], ttlUpdateCnt := 1 \<rparr>) \<noteq>
             ttlUpdateCnt state_a1"
    by (simp add: state_a1_def)
  from upd [OF conjI [OF one cnt]]
  have lt: "ttlVersion rec_a1 < ttlVersion ttl_refresh_6"
    by (auto simp: state_a1_def)
  from run one eq le lt lib0_std show ?thesis by simp
qed

text \<open>
  C3, as stated, fails: a value update that keeps version and originator and brings a
  greater payload installs the incoming ttlVersion, here 0 where 5 was stored.
\<close>

theorem value_update_lowers_ttlVersion:
  "mergeSequence lib0 None [''k'' \<mapsto> rec_a1] [[(''k'', rec_a1_y)]] =
     Inr [''k'' \<mapsto> fillHash lib0 rec_a1_y] \<and>
   version (fillHash lib0 rec_a1_y) = version rec_a1 \<and>
   originatorId (fillHash lib0 rec_a1_y) = originatorId rec_a1 \<and>
   ttlVersion (fillHash lib0 rec_a1_y) < ttlVersion rec_a1"
  by (simp add: mergeKeyValues_def mergeKeyValue_def checkUpdateAll_def checkUpdateTtl_def
          rec_a1_def rec_a1_y_def lib0_def emplace_def sign_compare_def fillHash_def Let_def)

subsection \<open>Area lookup\<close>







subsection \<open>The full-sync response\<close>














subsection \<open>Self-originated keys\<close>

lemma map_of_erase: "map_of (erase m k) = (map_of m)(k := None)"
  by (induction m) (auto simp: erase_def fun_eq_iff)

lemma map_of_assign: "map_of (assign m k v) = (map_of m)(k \<mapsto> v)"
proof (cases "map_of m k")
  case None
  then show ?thesis by (auto simp: assign_def fun_eq_iff map_add_def split: option.splits)
next
  case (Some a)
  have "map_of (map (\<lambda>kv. if fst kv = k then (k, v) else kv) m) x =
          (if x = k then (case map_of m k of None \<Rightarrow> None | Some _ \<Rightarrow> Some v) else map_of m x)" for x
    by (induction m) (auto split: option.splits)
  with Some show ?thesis by (auto simp: assign_def fun_eq_iff)
qed

text \<open>
  C10. For a key the store does not hold, \<open>unsetSelfOriginatedKey\<close> is
  \<open>eraseSelfOriginatedKey\<close>: the key leaves the cache of self-originated keys and the
  keys to advertise, and the store, the keys to unset, the peers, the countdown queue,
  the flood buffer and the effects (no throttled job called, nothing pushed or sent) are
  as before.
\<close>

theorem unsetSelfOriginatedKey_absent_key:
  assumes "areaKvStore db key = None"
  shows "unsetSelfOriginatedKey P db key tombstone = Inr (eraseSelfOriginatedKey db key) \<and>
         areaKvStore (eraseSelfOriginatedKey db key) = areaKvStore db \<and>
         keysToUnset (eraseSelfOriginatedKey db key) = keysToUnset db \<and>
         effects (eraseSelfOriginatedKey db key) = effects db \<and>
         thriftPeers (eraseSelfOriginatedKey db key) = thriftPeers db \<and>
         ttlCountdownQueue (eraseSelfOriginatedKey db key) = ttlCountdownQueue db \<and>
         publicationBuffer (eraseSelfOriginatedKey db key) = publicationBuffer db \<and>
         map_of (selfOriginatedKeyVals (eraseSelfOriginatedKey db key)) =
           (map_of (selfOriginatedKeyVals db))(key := None) \<and>
         keysToAdvertise (eraseSelfOriginatedKey db key) = keysToAdvertise db - {key}"
  using assms
  by (simp add: unsetSelfOriginatedKey_def eraseSelfOriginatedKey_def Let_def map_of_erase)

theorem unsetSelfOriginatedKey_absent_key_witness:
  "areaKvStore db_cached ''k'' = None \<and>
   unsetSelfOriginatedKey params0 db_cached ''k'' ''gone'' = Inr db0"
proof -
  have h: "areaKvStore db_cached ''k'' = None" by (simp add: db_cached_def db0_def)
  have e: "eraseSelfOriginatedKey db_cached ''k'' = db0"
    by (simp add: eraseSelfOriginatedKey_def db_cached_def db0_def erase_def)
  from unsetSelfOriginatedKey_absent_key [OF h, of params0 "''gone''"] h e
  show ?thesis by simp
qed

subsection \<open>Loop suppression\<close>

lemma takePendingKeys_frame [simp]:
  "areaKvStore (fst (takePendingKeys db s ks)) = areaKvStore db"
  "ttlCountdownQueue (fst (takePendingKeys db s ks)) = ttlCountdownQueue db"
  "selfOriginatedKeyVals (fst (takePendingKeys db s ks)) = selfOriginatedKeyVals db"
  "keysToAdvertise (fst (takePendingKeys db s ks)) = keysToAdvertise db"
  "keysToUnset (fst (takePendingKeys db s ks)) = keysToUnset db"
  "publicationBuffer (fst (takePendingKeys db s ks)) = publicationBuffer db"
  "initialSyncCompleted (fst (takePendingKeys db s ks)) = initialSyncCompleted db"
  "effects (fst (takePendingKeys db s ks)) = effects db"
  by (simp_all add: takePendingKeys_def split: option.splits)

lemma takePendingKeys_addEffects:
  "snd (takePendingKeys (addEffects db es) s ks) = snd (takePendingKeys db s ks)"
  by (simp add: takePendingKeys_def addEffects_def split: option.splits)

lemma addEffects_frame [simp]:
  "areaKvStore (addEffects db es) = areaKvStore db"
  "ttlCountdownQueue (addEffects db es) = ttlCountdownQueue db"
  "selfOriginatedKeyVals (addEffects db es) = selfOriginatedKeyVals db"
  "keysToAdvertise (addEffects db es) = keysToAdvertise db"
  "keysToUnset (addEffects db es) = keysToUnset db"
  "publicationBuffer (addEffects db es) = publicationBuffer db"
  "initialSyncCompleted (addEffects db es) = initialSyncCompleted db"
  "thriftPeers (addEffects db es) = thriftPeers db"
  "effects (addEffects db es) = effects db @ es"
  by (simp_all add: addEffects_def)

lemma updatePeer_absent: "map_of peers name = None \<Longrightarrow> updatePeer peers name f = peers"
  by (induction peers) (auto simp: updatePeer_def split: if_splits)

lemma takePendingKeys_peers:
  "thriftPeers (fst (takePendingKeys db s ks)) =
     (case s of
        None \<Rightarrow> thriftPeers db
      | Some name \<Rightarrow> updatePeer (thriftPeers db) name
                       (\<lambda>p. p\<lparr> pendingKeysDuringInitialization := [] \<rparr>))"
  by (simp add: takePendingKeys_def updatePeer_absent split: option.splits)

text \<open>
  C5 (as amended). A publication whose node path holds this node's id is dropped:
  \<open>mergePublication\<close> returns 0 and leaves the area's database as it was but for two
  things: the keys pending for the sender are taken from it, and counters are updated
  (these are all the effects: nothing is pushed to the subscribers, nothing is sent to a
  peer). The store, the countdown queue, the self-originated keys, the flood buffer and
  every other member are as before. The publication is counted as a loop exactly when it
  carries key-values or there are keys to send back to the sender.
\<close>

theorem mergePublication_looped:
  assumes "nodeIds rcvd = Some ids" and "nodeId P \<in> set ids"
  shows "mergePublication L P E db rcvd sender =
     Inr (db\<lparr> thriftPeers :=
               (case sender of
                  None \<Rightarrow> thriftPeers db
                | Some name \<Rightarrow> updatePeer (thriftPeers db) name
                                 (\<lambda>p. p\<lparr> pendingKeysDuringInitialization := [] \<rparr>)),
             effects := effects db @
               [AddStatValue ''kvstore.received_publications'' 1,
                AddStatValue (''kvstore.received_publications.'' @ dbArea db) 1,
                AddStatValue ''kvstore.received_key_vals'' (int (length (keyVals rcvd))),
                AddStatValue (''kvstore.received_key_vals.'' @ dbArea db)
                  (int (length (keyVals rcvd)))] @
               (if keyVals rcvd \<noteq> [] \<or>
                   (sender \<noteq> None \<and> keysTobeUpdatedOf db rcvd sender \<noteq> [])
                then [AddStatValue ''kvstore.looped_publications'' 1] else []) \<rparr>, 0)"
proof -
  let ?stats = "[AddStatValue ''kvstore.received_publications'' 1,
                AddStatValue (''kvstore.received_publications.'' @ dbArea db) 1,
                AddStatValue ''kvstore.received_key_vals'' (int (length (keyVals rcvd))),
                AddStatValue (''kvstore.received_key_vals.'' @ dbArea db)
                  (int (length (keyVals rcvd)))]"
  let ?keys0 = "foldl insertKey [] (case tobeUpdatedKeys rcvd of None \<Rightarrow> [] | Some ks \<Rightarrow> ks)"
  have taken: "fst (takePendingKeys (addEffects db ?stats) sender ?keys0) =
      db\<lparr> thriftPeers :=
               (case sender of
                  None \<Rightarrow> thriftPeers db
                | Some name \<Rightarrow> updatePeer (thriftPeers db) name
                                 (\<lambda>p. p\<lparr> pendingKeysDuringInitialization := [] \<rparr>)),
          effects := effects db @ ?stats \<rparr>"
    by (auto simp: takePendingKeys_def addEffects_def updatePeer_absent split: option.splits)
  have pending: "snd (takePendingKeys (addEffects db ?stats) sender ?keys0) =
      keysTobeUpdatedOf db rcvd sender"
    by (simp add: keysTobeUpdatedOf_def takePendingKeys_addEffects)
  show ?thesis
    unfolding mergePublication_def Let_def taken pending
    using assms by (simp add: addEffects_def)
qed

theorem mergePublication_looped_witness:
  "nodeIds looped_pub = Some [''A'', ''B''] \<and> nodeId params0 \<in> set [''A'', ''B''] \<and>
   mergePublication lib0 params0 env0 db0 looped_pub None =
     Inr (db0\<lparr> effects :=
                [AddStatValue ''kvstore.received_publications'' 1,
                 AddStatValue ''kvstore.received_publications.1'' 1,
                 AddStatValue ''kvstore.received_key_vals'' 1,
                 AddStatValue ''kvstore.received_key_vals.1'' 1,
                 AddStatValue ''kvstore.looped_publications'' 1] \<rparr>, 0)"
proof -
  have h1: "nodeIds looped_pub = Some [''A'', ''B'']"
    by (simp add: looped_pub_def emptyPublication_def)
  have h2: "nodeId params0 \<in> set [''A'', ''B'']" by (simp add: params0_def)
  have k: "keyVals looped_pub = [(''k'', rec_a1)]" by (simp add: looped_pub_def)
  from mergePublication_looped [OF h1 h2, of lib0 env0 db0 None] h1 h2
  show ?thesis by (simp add: k db0_def)
qed

text \<open>
  C5, as stated, fails: a publication without key-values and with nothing to send back
  leaves \<open>mergePublication\<close> before the loop check, so with this node's id in its node
  path it is dropped but not counted as a loop.
\<close>

theorem looped_empty_publication_not_counted:
  "nodeIds looped_empty_pub = Some [''A'', ''B''] \<and> nodeId params0 \<in> set [''A'', ''B''] \<and>
   (\<exists>db'. mergePublication lib0 params0 env0 db0 looped_empty_pub None = Inr (db', 0) \<and>
      AddStatValue ''kvstore.looped_publications'' 1 \<notin> set (effects db'))"
  by (simp add: mergePublication_def looped_empty_pub_def emptyPublication_def params0_def
        db0_def takePendingKeys_def addEffects_def Let_def)

subsection \<open>The ttl of outgoing records\<close>

lemma stepRecord_simps:
  "stepRecord L timeNow ttlDecrMs rm key None qE = None"
  "stepRecord L timeNow ttlDecrMs rm key (Some v) qE =
     (if entryOf key v qE then
        (if expiring L timeNow ttlDecrMs rm qE then None
         else Some (v\<lparr> ttl := expiryTime qE - timeNow - ttlDecrMs \<rparr>))
      else Some v)"
  by (simp_all add: stepRecord_def)

lemma updateTtlFromEntry_key:
  "map_of (updateTtlFromEntry L timeNow ttlDecrMs rm kvs qE) key =
     stepRecord L timeNow ttlDecrMs rm key (map_of kvs key) qE"
  by (auto simp: updateTtlFromEntry_def stepRecord_def entryOf_def expiring_def Let_def
        map_of_erase map_of_assign split: option.splits)

lemma foldl_updateTtlFromEntry_key:
  "map_of (foldl (updateTtlFromEntry L timeNow ttlDecrMs rm) kvs queue) key =
     foldl (stepRecord L timeNow ttlDecrMs rm key) (map_of kvs key) queue"
  by (induction queue arbitrary: kvs) (simp_all add: updateTtlFromEntry_key)

lemma foldl_stepRecord_None [simp]:
  "foldl (stepRecord L timeNow ttlDecrMs rm key) None queue = None"
  by (induction queue) (simp_all add: stepRecord_simps)

lemma entryOf_ttl [simp]: "entryOf key (v\<lparr> ttl := t \<rparr>) = entryOf key v"
  by (simp add: entryOf_def fun_eq_iff)

lemma foldl_stepRecord_Some:
  "foldl (stepRecord L timeNow ttlDecrMs rm key) (Some v) queue =
     outboundRecord L timeNow queue ttlDecrMs rm key v"
proof (induction queue arbitrary: v)
  case Nil
  then show ?case by (simp add: outboundRecord_def)
next
  case (Cons qE queue)
  show ?case
  proof (cases "entryOf key v qE")
    case False
    with Cons.IH [of v] show ?thesis
      by (simp add: stepRecord_simps outboundRecord_def)
  next
    case True
    show ?thesis
    proof (cases "expiring L timeNow ttlDecrMs rm qE")
      case True
      with \<open>entryOf key v qE\<close> show ?thesis
        by (simp add: stepRecord_simps outboundRecord_def)
    next
      case False
      with True Cons.IH [of "v\<lparr> ttl := expiryTime qE - timeNow - ttlDecrMs \<rparr>"]
      show ?thesis
        by (simp add: stepRecord_simps outboundRecord_def Let_def)
    qed
  qed
qed

text \<open>No countdown entry is made for a key-value with the INFINITE ttl.\<close>

lemma pushTtlEntry_infinite:
  "ttl v = kTtlInfinity L \<Longrightarrow> pushTtlEntry L E db (k, v) = db"
  by (simp add: pushTtlEntry_def)

text \<open>
  What \<open>updatePublicationTtl\<close> does to each record of an outgoing publication. It goes
  by the countdown queue, not by the ttl field: a record with no countdown entry for its
  key, version, originator and ttlVersion is left as it is; a record one of whose entries
  has a time left at or below the decrement (or, where the caller asks for it, below the
  threshold) is removed; any other record has its ttl set to the time left of its entry
  less the decrement.
\<close>

lemma updatePublicationTtl_record:
  "map_of (keyVals (updatePublicationTtl L timeNow queue ttlDecrMs pub rm)) key =
     (case map_of (keyVals pub) key of
        None \<Rightarrow> None
      | Some v \<Rightarrow> outboundRecord L timeNow queue ttlDecrMs rm key v)"
  by (simp add: updatePublicationTtl_def foldl_updateTtlFromEntry_key foldl_stepRecord_Some
      split: option.splits)

text \<open>
  C4. An INFINITE ttl is to leave the node unchanged, and the code means it to: it makes no
  countdown entry for such a record. But an entry is the entry of a record by key,
  version, originator and ttlVersion only. Here a record with a ttl of ten seconds is set;
  then a record of the same version, originator and ttlVersion with a greater payload and
  the INFINITE ttl, which the merge accepts in its place. The countdown entry of the first
  is still in the queue and is taken for the entry of the second: the store holds a record
  with the INFINITE ttl, and a get one second later answers with a ttl of 8999.
\<close>

lemmas model_defs = setKeyVals_def mergePublication_def mergeAndFlood_def mergeKeyValues_def
  mergeKeyValue_def checkUpdateAll_def checkUpdateTtl_def fillHash_def setHash_def emplace_def
  takePendingKeys_def addEffects_def updateTtlCountdownQueue_def pushTtlEntry_def
  floodPublication_def floodPublicationNow_def updatePublicationTtl_def updateTtlFromEntry_def
  processPublicationForSelfOriginatedKey_def getFloodPeers_def erase_def assign_def
  emptyPublication_def Let_def insertKey_def

theorem infinite_ttl_record_leaves_with_finite_ttl:
  "\<exists>db1 db2 stored pub sent.
     setKeyVals lib0 params0 env0 db0 (setRequest rec_finite) = Inr db1 \<and>
     setKeyVals lib0 params0 env0 db1 (setRequest rec_infinite) = Inr db2 \<and>
     areaKvStore db2 ''k'' = Some stored \<and> ttl stored = kTtlInfinity lib0 \<and>
     getKvStoreKeyVals lib0 params0 (env0\<lparr> steadyNow := 1000 \<rparr>) [(''1'', db2)] ''1'' [''k'']
       = Inr pub \<and>
     map_of (keyVals pub) ''k'' = Some sent \<and> ttl sent = 8999"
  by (simp add: model_defs lib0_def params0_def env0_def db0_def rec_finite_def
        rec_infinite_def setRequest_def sign_compare_def getKvStoreKeyVals_def
        getAreaDbOrThrow_def getKeyVals_def)

subsection \<open>Initial synchronization\<close>

text \<open>No handler but \<open>processInitializationEvent\<close> touches \<open>initialSyncCompleted\<close>.\<close>

lemma bufferPublication_flag [simp]:
  "initialSyncCompleted (bufferPublication db pub) = initialSyncCompleted db"
  by (simp add: bufferPublication_def Let_def)

lemma processSelfOriginatedKey_flag:
  "processSelfOriginatedKey P db kv = Inr db' \<Longrightarrow>
   initialSyncCompleted db' = initialSyncCompleted db"
  by (auto simp: processSelfOriginatedKey_def Let_def
      split: option.splits if_splits sum.splits)

lemma processSelfOriginatedKeys_flag:
  "processSelfOriginatedKeys P db kvs = Inr db' \<Longrightarrow>
   initialSyncCompleted db' = initialSyncCompleted db"
proof (induction kvs arbitrary: db)
  case Nil
  then show ?case by simp
next
  case (Cons kv kvs)
  then show ?case
    by (auto split: sum.splits dest: processSelfOriginatedKey_flag)
qed

lemma processPublicationForSelfOriginatedKey_flag:
  "processPublicationForSelfOriginatedKey P db pub = Inr db' \<Longrightarrow>
   initialSyncCompleted db' = initialSyncCompleted db"
  by (auto simp: processPublicationForSelfOriginatedKey_def
      split: if_splits sum.splits dest: processSelfOriginatedKeys_flag)

lemma floodToPeer_flag:
  "floodToPeer sender params db peerName = Inr db' \<Longrightarrow>
   initialSyncCompleted db' = initialSyncCompleted db"
  by (auto simp: floodToPeer_def split: option.splits if_splits)

lemma floodToPeers_flag:
  "floodToPeers sender params db names = Inr db' \<Longrightarrow>
   initialSyncCompleted db' = initialSyncCompleted db"
proof (induction names arbitrary: db)
  case Nil
  then show ?case by simp
next
  case (Cons n names)
  then show ?case
    by (auto split: sum.splits dest: floodToPeer_flag)
qed

lemma floodPublicationNow_flag:
  "floodPublicationNow L P E db pub setRoot = Inr db' \<Longrightarrow>
   initialSyncCompleted db' = initialSyncCompleted db"
  unfolding floodPublicationNow_def Let_def
  by (auto split: sum.splits if_splits
      dest!: processPublicationForSelfOriginatedKey_flag floodToPeers_flag)

lemma floodPublications_flag:
  "floodPublications L P E db pubs = Inr db' \<Longrightarrow>
   initialSyncCompleted db' = initialSyncCompleted db"
proof (induction pubs arbitrary: db)
  case Nil
  then show ?case by simp
next
  case (Cons p pubs)
  then show ?case
    by (auto split: sum.splits dest: floodPublicationNow_flag)
qed

lemma floodBufferedUpdates_flag:
  "floodBufferedUpdates L P E db = Inr db' \<Longrightarrow>
   initialSyncCompleted db' = initialSyncCompleted db"
  by (auto simp: floodBufferedUpdates_def Let_def split: if_splits dest: floodPublications_flag)

lemma floodPublication_flag:
  "floodPublication L P E db pub rateLimit setRoot = Inr db' \<Longrightarrow>
   initialSyncCompleted db' = initialSyncCompleted db"
  by (auto simp: floodPublication_def Let_def split: if_splits option.splits
      dest: floodBufferedUpdates_flag floodPublicationNow_flag)

lemma pushTtlEntry_flag [simp]:
  "initialSyncCompleted (pushTtlEntry L E db kv) = initialSyncCompleted db"
  by (simp add: pushTtlEntry_def Let_def)

lemma updateTtlCountdownQueue_flag [simp]:
  "initialSyncCompleted (updateTtlCountdownQueue L E db pub) = initialSyncCompleted db"
proof -
  have "initialSyncCompleted (foldl (pushTtlEntry L E) db kvs) = initialSyncCompleted db" for kvs
    by (induction kvs arbitrary: db) simp_all
  then show ?thesis by (simp add: updateTtlCountdownQueue_def)
qed

lemma finalizeFullSync_flag:
  "finalizeFullSync L P E db keys sender = Inr db' \<Longrightarrow>
   initialSyncCompleted db' = initialSyncCompleted db"
  by (auto simp: finalizeFullSync_def Let_def split: if_splits option.splits)

lemma mergeAndFlood_flag:
  "mergeAndFlood L P E db pub sender keys need = Inr (db', n) \<Longrightarrow>
   initialSyncCompleted db' = initialSyncCompleted db"
  unfolding mergeAndFlood_def Let_def
  by (auto split: sum.splits if_splits option.splits prod.splits
      dest!: floodPublication_flag finalizeFullSync_flag)

lemma mergePublication_flag:
  "mergePublication L P E db pub sender = Inr (db', n) \<Longrightarrow>
   initialSyncCompleted db' = initialSyncCompleted db"
  by (auto simp: mergePublication_def Let_def split: if_splits dest: mergeAndFlood_flag)

lemma list_all_peerDone: "peersSynced peers = list_all (\<lambda>np. peerDone (snd np)) peers"
  by (induction peers) (auto simp: peerDone_def)

lemma processInitializationEvent_flag:
  "initialSyncCompleted (fst (processInitializationEvent db)) =
     (initialSyncCompleted db \<or> snd (processInitializationEvent db))"
  by (simp add: processInitializationEvent_def)

lemma processThriftSuccess_flag:
  "processThriftSuccess L P E db peerName pub dt = Inr (db', cb) \<Longrightarrow>
   initialSyncCompleted db' = (initialSyncCompleted db \<or> cb)"
  unfolding processThriftSuccess_def Let_def processInitializationEvent_def
  by (auto split: option.splits sum.splits prod.splits if_splits dest!: mergePublication_flag)

lemma processThriftFailure_flag:
  assumes "processThriftFailure E db peerName = Inr (db', cb)"
  shows "initialSyncCompleted db' = (initialSyncCompleted db \<or> cb)"
  using assms
  by (auto simp: processThriftFailure_def Let_def processInitializationEvent_def
      split: option.splits sum.splits if_splits)

lemma requestThriftPeerSync_flag:
  "requestThriftPeerSync L E db = Inr db' \<Longrightarrow>
   initialSyncCompleted db' = initialSyncCompleted db"
  by (auto simp: requestThriftPeerSync_def Let_def split: sum.splits prod.splits if_splits)

lemma addThriftPeers_flag [simp]:
  "initialSyncCompleted (addThriftPeers E db peers) = initialSyncCompleted db"
proof -
  have "initialSyncCompleted (foldl (addThriftPeer E) d ps) = initialSyncCompleted d" for d ps
    by (induction ps arbitrary: d) (simp_all add: addThriftPeer_def Let_def split: option.splits)
  then show ?thesis by (simp add: addThriftPeers_def Let_def)
qed

lemma delThriftPeers_flag [simp]:
  "initialSyncCompleted (delThriftPeers db peers) = initialSyncCompleted db"
proof -
  have "initialSyncCompleted
          (foldl (\<lambda>d peerName. d\<lparr> thriftPeers := erase (thriftPeers d) peerName \<rparr>) d ps)
        = initialSyncCompleted d" for d ps
    by (induction ps arbitrary: d) simp_all
  then show ?thesis by (simp add: delThriftPeers_def)
qed

lemma getAreaDbOrThrow_servingArea:
  "getAreaDbOrThrow dbs a = Inr db \<Longrightarrow> map_of dbs (servingArea dbs a) = Some db"
  by (auto simp: getAreaDbOrThrow_def servingArea_def split: option.splits list.splits if_splits)

lemma putDb_frame [simp]:
  "map fst (kvStoreDb (putDb s a db)) = map fst (kvStoreDb s)"
  "initialSyncSignalSent (putDb s a db) = initialSyncSignalSent s"
  "initializationEvents (putDb s a db) = initializationEvents s"
  "kvStoreDb (putDb s a db) = [] \<longleftrightarrow> kvStoreDb s = []"
  by (auto simp: putDb_def)

lemma initialKvStoreDbSynced_frame [simp]:
  "kvStoreDb (initialKvStoreDbSynced s) = kvStoreDb s"
  by (simp add: initialKvStoreDbSynced_def)

lemma allAreasSynced_split:
  assumes "distinct (map fst (kvStoreDb s))" and "map_of (kvStoreDb s) a = Some db"
  shows "allAreasSynced s =
           (initialSyncCompleted db \<and>
            (\<forall>adb \<in> set (kvStoreDb s). fst adb \<noteq> a \<longrightarrow> initialSyncCompleted (snd adb)))"
proof -
  have "(a, db) \<in> set (kvStoreDb s)" using assms(2) by (rule map_of_SomeD)
  moreover have "d = db" if "(a, d) \<in> set (kvStoreDb s)" for d
    using map_of_is_SomeI [OF assms(1) that] assms(2) by simp
  ultimately show ?thesis
    unfolding allAreasSynced_def list_all_iff by (metis prod.collapse snd_conv)
qed

lemma list_all_replace:
  assumes "(a, db) \<in> set dbs"
  shows "list_all (\<lambda>adb. Q (snd adb)) (map (\<lambda>adb. if fst adb = a then (a, db') else adb) dbs) =
     (Q db' \<and> (\<forall>adb \<in> set dbs. fst adb \<noteq> a \<longrightarrow> Q (snd adb)))"
proof -
  have "list_all (\<lambda>adb. Q (snd adb)) (map (\<lambda>adb. if fst adb = a then (a, db') else adb) dbs) =
          list_all (\<lambda>adb. if fst adb = a then Q db' else Q (snd adb)) dbs"
    by (induction dbs) simp_all
  also have "\<dots> = (Q db' \<and> (\<forall>adb \<in> set dbs. fst adb \<noteq> a \<longrightarrow> Q (snd adb)))"
    unfolding list_all_iff using assms by force
  finally show ?thesis .
qed

lemma map_fst_keep:
  "map fst (map (\<lambda>adb. if C adb then (fst adb, h adb) else adb) xs) = map fst xs"
  by (induction xs) auto

lemma allAreasSynced_putDb:
  assumes "map_of (kvStoreDb s) a = Some db"
  shows "allAreasSynced (putDb s a db') =
           (initialSyncCompleted db' \<and>
            (\<forall>adb \<in> set (kvStoreDb s). fst adb \<noteq> a \<longrightarrow> initialSyncCompleted (snd adb)))"
proof -
  have "(a, db) \<in> set (kvStoreDb s)" using assms by (rule map_of_SomeD)
  then show ?thesis
    by (simp add: allAreasSynced_def putDb_def list_all_replace)
qed

lemma barrier_putDb:
  assumes "barrier s" and "map_of (kvStoreDb s) a = Some db"
    and "initialSyncCompleted db' = initialSyncCompleted db"
  shows "barrier (putDb s a db')"
proof -
  from assms(1) have d: "distinct (map fst (kvStoreDb s))" by (simp add: barrier_def)
  have "allAreasSynced (putDb s a db') = allAreasSynced s"
    by (simp add: allAreasSynced_putDb [OF assms(2)] allAreasSynced_split [OF d assms(2)] assms(3))
  with assms(1) show ?thesis by (simp add: barrier_def)
qed

lemma barrier_afterHandler:
  assumes "barrier s" and "map_of (kvStoreDb s) a = Some db"
    and "initialSyncCompleted (fst r) = (initialSyncCompleted db \<or> snd r)"
  shows "barrier (afterHandler s a r)"
proof (cases "snd r")
  case False
  with assms show ?thesis by (simp add: afterHandler_def barrier_putDb)
next
  case True
  from assms(1) have d: "distinct (map fst (kvStoreDb s))" by (simp add: barrier_def)
  let ?s1 = "putDb s a (fst r)"
  have syn: "allAreasSynced ?s1 =
           (\<forall>adb \<in> set (kvStoreDb s). fst adb \<noteq> a \<longrightarrow> initialSyncCompleted (snd adb))"
    using True assms(3) by (simp add: allAreasSynced_putDb [OF assms(2)])
  have imp: "allAreasSynced s \<Longrightarrow> allAreasSynced ?s1"
    by (simp add: syn allAreasSynced_split [OF d assms(2)])
  have unf: "list_all (\<lambda>adb. initialSyncCompleted (snd adb)) (kvStoreDb ?s1) = allAreasSynced ?s1"
    by (simp add: allAreasSynced_def)
  show ?thesis
  proof (cases "allAreasSynced ?s1")
    case all: True
    have "allAreasSynced (initialKvStoreDbSynced ?s1)"
      using all by (simp add: allAreasSynced_def)
    with assms(1) all True show ?thesis
      by (auto simp: afterHandler_def barrier_def initialKvStoreDbSynced_def unf)
  next
    case notall: False
    with imp have "\<not> allAreasSynced s" by blast
    with assms(1) notall True show ?thesis
      by (auto simp: afterHandler_def barrier_def initialKvStoreDbSynced_def unf)
  qed
qed

lemma barrier_addUpdateKvStorePeers:
  assumes "barrier s" and "addUpdateKvStorePeers E s a ps = Inr s'"
  shows "barrier s'"
proof -
  from assms(2) obtain db where
    g: "getAreaDbOrThrow (kvStoreDb s) a = Inr db"
    and s': "s' = putDb s (servingArea (kvStoreDb s) a)
                    (addThriftPeers E (addEffects db [AddStatValue ''kvstore.cmd_peer_add'' 1]) ps)"
    by (auto simp: addUpdateKvStorePeers_def split: sum.splits if_splits)
  show ?thesis unfolding s'
    by (rule barrier_putDb [OF assms(1) getAreaDbOrThrow_servingArea [OF g]]) simp
qed

lemma barrier_deleteKvStorePeers:
  assumes "barrier s" and "deleteKvStorePeers s a ps = Inr s'"
  shows "barrier s'"
proof -
  from assms(2) obtain db where
    g: "getAreaDbOrThrow (kvStoreDb s) a = Inr db"
    and s': "s' = putDb s (servingArea (kvStoreDb s) a)
                    (delThriftPeers (addEffects db [AddStatValue ''kvstore.cmd_per_del'' 1]) ps)"
    by (auto simp: deleteKvStorePeers_def split: sum.splits if_splits)
  show ?thesis unfolding s'
    by (rule barrier_putDb [OF assms(1) getAreaDbOrThrow_servingArea [OF g]]) simp
qed

lemma barrier_areaPeerUpdatesUntilError:
  "barrier s \<Longrightarrow> barrier (fst (areaPeerUpdatesUntilError E s evs))"
proof (induction evs arbitrary: s)
  case Nil
  then show ?case by simp
next
  case (Cons ev evs)
  let ?added = "if fst (snd ev) \<noteq> [] then addUpdateKvStorePeers E s (fst ev) (fst (snd ev))
                else Inr s"
  show ?case
  proof (cases ?added)
    case (Inl e)
    with Cons.prems show ?thesis by (simp add: Let_def)
  next
    case added: (Inr s1)
    with Cons.prems have b1: "barrier s1"
      by (auto split: if_splits dest: barrier_addUpdateKvStorePeers)
    let ?deleted = "if snd (snd ev) \<noteq> [] then deleteKvStorePeers s1 (fst ev) (snd (snd ev))
                    else Inr s1"
    show ?thesis
    proof (cases ?deleted)
      case (Inl e)
      with added b1 show ?thesis by (simp add: Let_def)
    next
      case deleted: (Inr s2)
      with b1 have "barrier s2"
        by (auto split: if_splits dest: barrier_deleteKvStorePeers)
      from Cons.IH [OF this] added deleted show ?thesis by (simp add: Let_def)
    qed
  qed
qed

lemma barrier_initializeAreaWithoutPeers:
  "barrier s \<Longrightarrow> barrier (initializeAreaWithoutPeers s a)"
  by (auto simp: initializeAreaWithoutPeers_def processInitializationEvent_flag
      split: option.splits intro: barrier_afterHandler)

lemma barrier_foldl_initializeAreaWithoutPeers:
  "barrier s \<Longrightarrow> barrier (foldl initializeAreaWithoutPeers s ks)"
  by (induction ks arbitrary: s) (simp_all add: barrier_initializeAreaWithoutPeers)

lemma barrier_processPeerUpdates:
  assumes "barrier s"
  shows "barrier (fst (processPeerUpdates E s event))"
proof -
  obtain s1 e where a: "areaPeerUpdatesUntilError E s event = (s1, e)" by (cases "areaPeerUpdatesUntilError E s event")
  with barrier_areaPeerUpdatesUntilError [OF assms, of E event] have "barrier s1" by simp
  then show ?thesis
    by (cases e) (simp_all add: processPeerUpdates_def a barrier_foldl_initializeAreaWithoutPeers)
qed

lemma barrier_step:
  assumes "barrier s" and "step L P E s ev = Inr s'"
  shows "barrier s'"
proof (cases ev)
  case (ThriftSuccess a peerName pub dt)
  with assms show ?thesis
    by (auto split: option.splits sum.splits
        intro!: barrier_afterHandler dest!: processThriftSuccess_flag)
next
  case (ThriftFailure a peerName)
  with assms show ?thesis
    by (auto split: option.splits sum.splits
        intro!: barrier_afterHandler dest!: processThriftFailure_flag)
next
  case (PeerUpdates event)
  with assms show ?thesis by (auto simp: barrier_processPeerUpdates)
next
  case (ThriftSyncTimer a)
  with assms show ?thesis
    by (auto split: option.splits sum.splits
        intro!: barrier_putDb dest!: requestThriftPeerSync_flag)
next
  case (OtherHandler a f)
  with assms show ?thesis
    by (auto split: option.splits intro!: barrier_putDb)
qed

lemma barrier_run:
  "barrier s \<Longrightarrow> run L P s evs = Inr s' \<Longrightarrow> barrier s'"
proof (induction evs arbitrary: s)
  case Nil
  then show ?case by simp
next
  case (Cons ev evs)
  then show ?case by (auto split: sum.splits dest: barrier_step)
qed

lemma initialStore_barrier: "initialStore s \<Longrightarrow> barrier s"
  by (cases "kvStoreDb s") (auto simp: initialStore_def barrier_def allAreasSynced_def)

text \<open>An area without peers is synchronized once a peer event has been processed.\<close>

lemma kvStoreDb_initializeAreaWithoutPeers:
  assumes "distinct (map fst (kvStoreDb s))"
  shows "kvStoreDb (initializeAreaWithoutPeers s a) =
           map (\<lambda>adb. if fst adb = a \<and> thriftPeers (snd adb) = []
                       then (fst adb, (snd adb)\<lparr> initialSyncCompleted := True \<rparr>) else adb)
               (kvStoreDb s)"
proof (cases "map_of (kvStoreDb s) a")
  case None
  then have "fst adb \<noteq> a" if "adb \<in> set (kvStoreDb s)" for adb
    using that by (metis map_of_eq_None_iff image_eqI)
  then have "map (\<lambda>adb. if fst adb = a \<and> thriftPeers (snd adb) = []
                       then (fst adb, (snd adb)\<lparr> initialSyncCompleted := True \<rparr>) else adb)
               (kvStoreDb s) = kvStoreDb s"
    by (simp add: map_idI)
  with None show ?thesis by (simp add: initializeAreaWithoutPeers_def)
next
  case (Some db)
  have eq: "d = db" if "(a, d) \<in> set (kvStoreDb s)" for d
    using map_of_is_SomeI [OF assms that] Some by simp
  show ?thesis
  proof (cases "thriftPeers db = []")
    case True
    with Some show ?thesis
      by (auto simp: initializeAreaWithoutPeers_def afterHandler_def processInitializationEvent_def
          putDb_def dest: eq)
  next
    case False
    then have "map (\<lambda>adb. if fst adb = a \<and> thriftPeers (snd adb) = []
                       then (fst adb, (snd adb)\<lparr> initialSyncCompleted := True \<rparr>) else adb)
               (kvStoreDb s) = kvStoreDb s"
      by (auto intro!: map_idI dest: eq)
    with Some False show ?thesis by (simp add: initializeAreaWithoutPeers_def)
  qed
qed

lemma kvStoreDb_foldl_initializeAreaWithoutPeers:
  "distinct (map fst (kvStoreDb s)) \<Longrightarrow>
   kvStoreDb (foldl initializeAreaWithoutPeers s ks) =
     map (\<lambda>adb. if fst adb \<in> set ks \<and> thriftPeers (snd adb) = []
                 then (fst adb, (snd adb)\<lparr> initialSyncCompleted := True \<rparr>) else adb)
         (kvStoreDb s)"
proof (induction ks arbitrary: s)
  case Nil
  then show ?case by (simp add: map_idI)
next
  case (Cons k ks)
  have "map fst (kvStoreDb (initializeAreaWithoutPeers s k)) = map fst (kvStoreDb s)"
    unfolding kvStoreDb_initializeAreaWithoutPeers [OF Cons.prems] by (rule map_fst_keep)
  with Cons.prems have d: "distinct (map fst (kvStoreDb (initializeAreaWithoutPeers s k)))"
    by simp
  show ?case
    by (simp add: Cons.IH [OF d] kvStoreDb_initializeAreaWithoutPeers [OF Cons.prems]) auto
qed

lemma peerless_areas_synced:
  assumes "barrier s" and "processPeerUpdates E s event = (s', None)"
    and "adb \<in> set (kvStoreDb s')" and "thriftPeers (snd adb) = []"
  shows "initialSyncCompleted (snd adb)"
proof -
  obtain s1 e where a: "areaPeerUpdatesUntilError E s event = (s1, e)"
    by (cases "areaPeerUpdatesUntilError E s event")
  with barrier_areaPeerUpdatesUntilError [OF assms(1), of E event] have b: "barrier s1" by simp
  from assms(2) a have e: "e = None" by (cases e) (simp_all add: processPeerUpdates_def)
  show ?thesis
  proof (cases "initialSyncSignalSent s1")
    case True
    with assms(2) a e have "s' = s1" by (simp add: processPeerUpdates_def)
    moreover from b True have "allAreasSynced s1" by (simp add: barrier_def)
    ultimately show ?thesis using assms(3) by (simp add: allAreasSynced_def list_all_iff)
  next
    case False
    from b have d: "distinct (map fst (kvStoreDb s1))" by (simp add: barrier_def)
    from False assms(2) a e
    have "s' = foldl initializeAreaWithoutPeers s1 (map fst (kvStoreDb s1))"
      by (simp add: processPeerUpdates_def)
    with assms(3,4) show ?thesis
      by (auto simp: kvStoreDb_foldl_initializeAreaWithoutPeers [OF d] split: if_splits)
  qed
qed

text \<open>
  When the callbacks of a request to a known peer have run, the area is synchronized
  exactly if it was before or every peer it has now is done.
\<close>

lemma processThriftFailure_completes:
  assumes "processThriftFailure E db peerName = Inr (db', cb)"
    and "map_of (thriftPeers db) peerName \<noteq> None"
  shows "initialSyncCompleted db' =
           (initialSyncCompleted db \<or> list_all (\<lambda>np. peerDone (snd np)) (thriftPeers db'))"
  using assms
  by (auto simp: processThriftFailure_def Let_def processInitializationEvent_def
      list_all_peerDone [symmetric] split: option.splits sum.splits if_splits)

lemma processThriftSuccess_completes:
  assumes "processThriftSuccess L P E db peerName pub dt = Inr (db', cb)"
    and "map_of (thriftPeers db) peerName = Some p" and "state (peerSpec p) \<noteq> IDLE"
  shows "initialSyncCompleted db' =
           (initialSyncCompleted db \<or> list_all (\<lambda>np. peerDone (snd np)) (thriftPeers db'))"
  using assms unfolding processThriftSuccess_def Let_def processInitializationEvent_def
  by (auto simp: list_all_peerDone [symmetric] split: sum.splits prod.splits if_splits
      dest!: mergePublication_flag)

text \<open>The events published are never taken back.\<close>

lemma initialKvStoreDbSynced_appends:
  "\<exists>more. initializationEvents (initialKvStoreDbSynced s) = initializationEvents s @ more"
  by (simp add: initialKvStoreDbSynced_def)

lemma afterHandler_appends:
  "\<exists>more. initializationEvents (afterHandler s a r) = initializationEvents s @ more"
  using initialKvStoreDbSynced_appends [of "putDb s a (fst r)"]
  by (simp add: afterHandler_def)

lemma initializeAreaWithoutPeers_appends:
  "\<exists>more. initializationEvents (initializeAreaWithoutPeers s a) = initializationEvents s @ more"
  by (simp add: initializeAreaWithoutPeers_def afterHandler_appends split: option.splits)

lemma foldl_initializeAreaWithoutPeers_appends:
  "\<exists>more. initializationEvents (foldl initializeAreaWithoutPeers s ks) =
            initializationEvents s @ more"
proof (induction ks arbitrary: s)
  case Nil
  then show ?case by simp
next
  case (Cons k ks)
  from Cons.IH [of "initializeAreaWithoutPeers s k"] initializeAreaWithoutPeers_appends [of s k]
  show ?case by auto
qed

lemma areaPeerUpdatesUntilError_events:
  "initializationEvents (fst (areaPeerUpdatesUntilError E s evs)) = initializationEvents s"
proof (induction evs arbitrary: s)
  case Nil
  then show ?case by simp
next
  case (Cons ev evs)
  have a: "initializationEvents s1 = initializationEvents s0"
    if "addUpdateKvStorePeers E s0 x ps = Inr s1" for s0 s1 x ps
    using that by (auto simp: addUpdateKvStorePeers_def split: sum.splits if_splits)
  have d: "initializationEvents s1 = initializationEvents s0"
    if "deleteKvStorePeers s0 x ps = Inr s1" for s0 s1 x ps
    using that by (auto simp: deleteKvStorePeers_def split: sum.splits if_splits)
  let ?added = "if fst (snd ev) \<noteq> [] then addUpdateKvStorePeers E s (fst ev) (fst (snd ev))
                else Inr s"
  show ?case
  proof (cases ?added)
    case (Inl e)
    then show ?thesis by (simp add: Let_def)
  next
    case added: (Inr s1)
    then have e1: "initializationEvents s1 = initializationEvents s"
      by (auto split: if_splits dest: a)
    let ?deleted = "if snd (snd ev) \<noteq> [] then deleteKvStorePeers s1 (fst ev) (snd (snd ev))
                    else Inr s1"
    show ?thesis
    proof (cases ?deleted)
      case (Inl e)
      with added e1 show ?thesis by (simp add: Let_def)
    next
      case deleted: (Inr s2)
      then have "initializationEvents s2 = initializationEvents s1"
        by (auto split: if_splits dest: d)
      with Cons.IH [of s2] added deleted e1 show ?thesis by (simp add: Let_def)
    qed
  qed
qed

lemma processPeerUpdates_appends:
  "\<exists>more. initializationEvents (fst (processPeerUpdates E s event)) =
            initializationEvents s @ more"
proof -
  obtain s1 e where a: "areaPeerUpdatesUntilError E s event = (s1, e)"
    by (cases "areaPeerUpdatesUntilError E s event")
  with areaPeerUpdatesUntilError_events [of E s event]
  have "initializationEvents s1 = initializationEvents s" by simp
  with foldl_initializeAreaWithoutPeers_appends [of s1 "map fst (kvStoreDb s1)"]
  show ?thesis by (cases e) (auto simp: processPeerUpdates_def a)
qed

lemma step_appends:
  assumes "step L P E s ev = Inr s'"
  shows "\<exists>more. initializationEvents s' = initializationEvents s @ more"
proof (cases ev)
  case (ThriftSuccess a peerName pub dt)
  with assms show ?thesis by (auto split: option.splits sum.splits simp: afterHandler_appends)
next
  case (ThriftFailure a peerName)
  with assms show ?thesis by (auto split: option.splits sum.splits simp: afterHandler_appends)
next
  case (PeerUpdates event)
  with assms processPeerUpdates_appends [of E s event] show ?thesis by auto
next
  case (ThriftSyncTimer a)
  with assms show ?thesis by (auto split: option.splits sum.splits)
next
  case (OtherHandler a f)
  with assms show ?thesis by (auto split: option.splits)
qed

lemma run_appends:
  "run L P s evs = Inr s' \<Longrightarrow> \<exists>more. initializationEvents s' = initializationEvents s @ more"
proof (induction evs arbitrary: s)
  case Nil
  then show ?case by simp
next
  case (Cons ev evs)
  then obtain s1 where s1: "step L P (fst ev) s (snd ev) = Inr s1" and r: "run L P s1 evs = Inr s'"
    by (auto split: sum.splits)
  from step_appends [OF s1] Cons.IH [OF r] show ?case by auto
qed

lemma barrier_events: "barrier s \<Longrightarrow> length (initializationEvents s) \<le> 1"
  by (simp add: barrier_def)

text \<open>
  What holds of the signal. From a store of at least one area, none of them marked as
  synchronized and nothing published, after any run of events \<open>KVSTORE_SYNCED\<close> has
  been published exactly if every area is marked as synchronized, and then once; whatever
  follows only adds to the events published, and they never are more than this one. An
  area is marked, when its peers are looked at, exactly if each of them is INITIALIZED or
  has met a thrift error; and after a peer event that went through, every area without
  peers is marked.
\<close>

theorem kvstore_synced_published_once:
  assumes "initialStore s0" and "run L P s0 evs = Inr s"
  shows "initialSyncSignalSent s = allAreasSynced s \<and>
         initializationEvents s = (if allAreasSynced s then [KVSTORE_SYNCED] else []) \<and>
         (\<forall>later s'. run L P s later = Inr s' \<longrightarrow>
            (\<exists>more. initializationEvents s' = initializationEvents s @ more) \<and>
            length (initializationEvents s') \<le> 1) \<and>
         (\<forall>db. processInitializationEvent db =
            (if list_all (\<lambda>np. peerDone (snd np)) (thriftPeers db)
             then (db\<lparr> initialSyncCompleted := True \<rparr>, True) else (db, False))) \<and>
         (\<forall>E event s'. processPeerUpdates E s event = (s', None) \<longrightarrow>
            (\<forall>adb \<in> set (kvStoreDb s').
               thriftPeers (snd adb) = [] \<longrightarrow> initialSyncCompleted (snd adb)))"
proof -
  have b: "barrier s"
    using barrier_run [OF initialStore_barrier [OF assms(1)] assms(2)] .
  have 1: "initialSyncSignalSent s = allAreasSynced s"
    and 2: "initializationEvents s = (if allAreasSynced s then [KVSTORE_SYNCED] else [])"
    using b by (simp_all add: barrier_def)
  have 3: "(\<exists>more. initializationEvents s' = initializationEvents s @ more) \<and>
           length (initializationEvents s') \<le> 1"
    if "run L P s later = Inr s'" for later s'
    using run_appends [OF that] barrier_events [OF barrier_run [OF b that]] by simp
  have 4: "processInitializationEvent db =
            (if list_all (\<lambda>np. peerDone (snd np)) (thriftPeers db)
             then (db\<lparr> initialSyncCompleted := True \<rparr>, True) else (db, False))" for db
    by (simp add: processInitializationEvent_def list_all_peerDone)
  have 5: "initialSyncCompleted (snd adb)"
    if "processPeerUpdates E s event = (s', None)" and "adb \<in> set (kvStoreDb s')"
      and "thriftPeers (snd adb) = []" for E event s' adb
    using peerless_areas_synced [OF b that] .
  from 1 2 3 4 5 show ?thesis by blast
qed

theorem kvstore_synced_published_once_witness:
  "initialStore store1 \<and> run lib0 params0 store1 events1 = Inr store1_after \<and>
   allAreasSynced store1_after \<and> initialSyncSignalSent store1_after \<and>
   initializationEvents store1_after = [KVSTORE_SYNCED] \<and>
   run lib0 params0 store1 (take 1 events1) \<noteq> Inr store1_after \<and>
   initializationEvents
     (case run lib0 params0 store1 (take 1 events1) of Inr s \<Rightarrow> s | Inl e \<Rightarrow> store1) = []"
proof -
  have i: "initialStore store1"
    by (simp add: initialStore_def store1_def db0_def)
  have r: "run lib0 params0 store1 events1 = Inr store1_after"
    by (simp add: store1_def events1_def store1_after_def db0_def env0_def peerSpecB_def
        processPeerUpdates_def addUpdateKvStorePeers_def getAreaDbOrThrow_def servingArea_def
        putDb_def addThriftPeers_def addThriftPeer_def addEffects_def Let_def
        initializeAreaWithoutPeers_def afterHandler_def processThriftFailure_def
        processInitializationEvent_def initialKvStoreDbSynced_def getNextState_def
        stateMap_def updatePeer_def)
  have p: "run lib0 params0 store1 (take 1 events1) =
             Inr (store1\<lparr> kvStoreDb :=
               [(''1'', db0\<lparr> thriftPeers :=
                         [(''B'', \<lparr> peerSpec = peerSpecB, client = True, numThriftApiErrors = 0,
                                    pendingKeysDuringInitialization = [] \<rparr>)],
                       effects := [AddStatValue ''kvstore.cmd_peer_add'' 1,
                                   ScheduleTimeout ''thriftSyncTimer'' 0] \<rparr>)] \<rparr>)"
    by (simp add: store1_def events1_def db0_def env0_def peerSpecB_def
        processPeerUpdates_def addUpdateKvStorePeers_def getAreaDbOrThrow_def servingArea_def
        putDb_def addThriftPeers_def addThriftPeer_def addEffects_def Let_def
        initializeAreaWithoutPeers_def)
  from kvstore_synced_published_once [OF i r] have
    "initialSyncSignalSent store1_after = allAreasSynced store1_after"
    and "initializationEvents store1_after =
           (if allAreasSynced store1_after then [KVSTORE_SYNCED] else [])"
    by simp_all
  moreover have "allAreasSynced store1_after"
    by (simp add: allAreasSynced_def store1_after_def)
  ultimately show ?thesis using i r p
    by (simp add: store1_def store1_after_def)
qed

lemmas sync_defs = store1_def events_bc_def store_bc_after_def db0_def env0_def lib0_def
  params0_def peerSpecB_def processPeerUpdates_def addUpdateKvStorePeers_def
  deleteKvStorePeers_def getAreaDbOrThrow_def servingArea_def putDb_def addThriftPeers_def
  addThriftPeer_def delThriftPeers_def addEffects_def Let_def initializeAreaWithoutPeers_def
  afterHandler_def processThriftSuccess_def processInitializationEvent_def
  initialKvStoreDbSynced_def getNextState_def stateMap_def updatePeer_def
  requestThriftPeerSync_def getPeersByState_def mergePublication_def takePendingKeys_def
  emptyPublication_def insertKey_def erase_def

text \<open>
  C8. The area has a single peer left and that peer is INITIALIZED, so each of its peers
  has completed; but the area is not marked as synchronized, the signal has not been sent
  and nothing has been published, and neither the late answer of the deleted peer nor a
  further peer event nor the sync timer changes that. The peers of an area are looked at
  only after a response or a failure of a peer that is still known, and at a peer event
  only when the area has no peer at all: deleting the one peer that was not done leaves
  the others unexamined.
\<close>

theorem all_peers_initialized_nothing_published:
  "run lib0 params0 store1 events_bc = Inr store_bc_after \<and>
   run lib0 params0 store1 (take 4 events_bc) = Inr store_bc_after \<and>
   map (\<lambda>adb. (fst adb, map (\<lambda>np. (fst np, state (peerSpec (snd np)))) (thriftPeers (snd adb))))
     (kvStoreDb store_bc_after) = [(''1'', [(''B'', INITIALIZED)])] \<and>
   map (\<lambda>adb. initialSyncCompleted (snd adb)) (kvStoreDb store_bc_after) = [False] \<and>
   \<not> allAreasSynced store_bc_after \<and>
   \<not> initialSyncSignalSent store_bc_after \<and>
   initializationEvents store_bc_after = []"
proof -
  have four: "run lib0 params0 store1 (take 4 events_bc) = Inr store_bc_after"
    by (simp add: sync_defs)
  have more: "run lib0 params0 store_bc_after (drop 4 events_bc) = Inr store_bc_after"
    by (simp add: sync_defs)
  have split: "run L P s (xs @ ys) =
                 (case run L P s xs of Inl e \<Rightarrow> Inl e | Inr s1 \<Rightarrow> run L P s1 ys)"
    for L P s xs ys
    by (induction xs arbitrary: s) (simp_all split: sum.splits)
  have "run lib0 params0 store1 (take 4 events_bc @ drop 4 events_bc) = Inr store_bc_after"
    unfolding split four using more by simp
  then have all: "run lib0 params0 store1 events_bc = Inr store_bc_after" by simp
  have view: "map (\<lambda>adb. (fst adb, map (\<lambda>np. (fst np, state (peerSpec (snd np))))
                 (thriftPeers (snd adb)))) (kvStoreDb store_bc_after) =
              [(''1'', [(''B'', INITIALIZED)])]"
    "map (\<lambda>adb. initialSyncCompleted (snd adb)) (kvStoreDb store_bc_after) = [False]"
    "\<not> allAreasSynced store_bc_after"
    "\<not> initialSyncSignalSent store_bc_after"
    "initializationEvents store_bc_after = []"
    by (simp_all add: store_bc_after_def db0_def allAreasSynced_def)
  from all four view show ?thesis by simp
qed

end
